theory Spec2Isabelle
  imports Main "HOL-Library.Log_Nat"
begin

section \<open>Python values and operators used by the handlers\<close>

text \<open>
  The request body is parsed JSON, so \<open>data.get('url')\<close> and \<open>data.get('mode')\<close> can be any
  JSON value. Strings are lists of bytes; a JSON object is an association list. A key that
  is absent reads as \<open>JNull\<close>, as \<open>dict.get\<close> returns \<open>None\<close>.
\<close>

datatype json =
    JNull
  | JBool bool
  | JNum rat
  | JStr string
  | JArr "json list"
  | JObj "(string \<times> json) list"

datatype py_error = TypeError | KeyError | AttributeError

fun truthy :: "json \<Rightarrow> bool" where
  "truthy JNull = False"
| "truthy (JBool b) = b"
| "truthy (JNum r) = (r \<noteq> 0)"
| "truthy (JStr s) = (s \<noteq> [])"
| "truthy (JArr xs) = (xs \<noteq> [])"
| "truthy (JObj kvs) = (kvs \<noteq> [])"

definition dict_get :: "(string \<times> json) list \<Rightarrow> string \<Rightarrow> json" where
  "dict_get kvs k = (case map_of kvs k of None \<Rightarrow> JNull | Some v \<Rightarrow> v)"

text \<open>\<open>needle in hay\<close> on two strings: \<open>needle\<close> occurs as a contiguous run of \<open>hay\<close>.\<close>

fun starts_with :: "string \<Rightarrow> string \<Rightarrow> bool" where
  "starts_with [] hay = True"
| "starts_with (c # cs) [] = False"
| "starts_with (c # cs) (h # hs) = (c = h \<and> starts_with cs hs)"

fun str_contains :: "string \<Rightarrow> string \<Rightarrow> bool" where
  "str_contains needle [] = (needle = [])"
| "str_contains needle (h # hs) = (starts_with needle (h # hs) \<or> str_contains needle hs)"

text \<open>
  \<open>needle in v\<close> for a string \<open>needle\<close> and any JSON value \<open>v\<close>: substring test on a string,
  element test on a list, key test on a dict, \<open>TypeError\<close> on a number, a boolean or \<open>None\<close>.
\<close>

fun py_in :: "string \<Rightarrow> json \<Rightarrow> py_error + bool" where
  "py_in needle (JStr s) = Inr (str_contains needle s)"
| "py_in needle (JArr xs) = Inr (JStr needle \<in> set xs)"
| "py_in needle (JObj kvs) = Inr (needle \<in> fst ` set kvs)"
| "py_in needle v = Inl TypeError"

section \<open>Numbers of a progress event\<close>

text \<open>
  The byte counts of a progress event are Python ints or floats. \<open>a / b\<close> is float division
  and \<open>x * 100\<close> a float product; both round the exact result to binary64 (53 significant
  bits, ties to even). A float is the rational it denotes. The exponent range is not
  modelled: byte counts stay far inside it.
\<close>

datatype pynum = PyInt int | PyFloat rat

definition pow2 :: "int \<Rightarrow> rat" where
  "pow2 k = (if 0 \<le> k then 2 ^ nat k else 1 / 2 ^ nat (- k))"

definition ilog2 :: "rat \<Rightarrow> int" where
  "ilog2 x =
     (if 1 \<le> x then int (floorlog 2 (nat \<lfloor>x\<rfloor>)) - 1
      else (let k = int (floorlog 2 (nat \<lfloor>1 / x\<rfloor>)) - 1
            in if pow2 k = 1 / x then - k else - (k + 1)))"

definition round_half_even :: "rat \<Rightarrow> int" where
  "round_half_even x =
     (let f = \<lfloor>x\<rfloor>; r = x - of_int f
      in if r < 1 / 2 then f
         else if 1 / 2 < r then f + 1
         else if even f then f else f + 1)"

definition fl :: "rat \<Rightarrow> rat" where
  "fl x =
     (if x = 0 then 0
      else (let u = pow2 (ilog2 \<bar>x\<bar> - 52)
            in of_int (round_half_even (x / u)) * u))"

fun num_val :: "pynum \<Rightarrow> rat" where
  "num_val (PyInt i) = of_int i"
| "num_val (PyFloat r) = r"

fun to_float :: "pynum \<Rightarrow> rat" where
  "to_float (PyInt i) = fl (of_int i)"
| "to_float (PyFloat r) = r"

text \<open>
  \<open>a / b\<close> for \<open>b \<noteq> 0\<close>: two ints give the correctly rounded quotient; otherwise the int
  operand is converted to float first.
\<close>

fun py_truediv :: "pynum \<Rightarrow> pynum \<Rightarrow> rat" where
  "py_truediv (PyInt a) (PyInt b) = fl (of_int a / of_int b)"
| "py_truediv a b = fl (to_float a / to_float b)"

definition py_mul100 :: "rat \<Rightarrow> rat" where
  "py_mul100 x = fl (x * 100)"

text \<open>\<open>v or 0\<close> on an optional number: \<open>None\<close> and zero are falsy.\<close>

fun num_truthy :: "pynum option \<Rightarrow> bool" where
  "num_truthy None = False"
| "num_truthy (Some n) = (num_val n \<noteq> 0)"

definition or_num :: "pynum option \<Rightarrow> pynum option \<Rightarrow> pynum option" where
  "or_num a b = (if num_truthy a then a else b)"

definition or_zero :: "pynum option \<Rightarrow> pynum" where
  "or_zero a = (if num_truthy a then the a else PyInt 0)"

text \<open>\<open>int(min(100, max(0, x)))\<close>: clamp, then truncate towards zero.\<close>

definition py_int :: "rat \<Rightarrow> int" where
  "py_int x = (if 0 \<le> x then \<lfloor>x\<rfloor> else \<lceil>x\<rceil>)"

definition pct_of :: "pynum \<Rightarrow> pynum \<Rightarrow> int" where
  "pct_of downloaded tot =
     py_int (min 100 (max 0 (py_mul100 (py_truediv downloaded tot))))"

section \<open>The task store and the progress reporter\<close>

text \<open>
  A task is the dict stored in \<open>_tasks\<close>. The keys \<open>status\<close>, \<open>progress\<close>, \<open>url\<close> and
  \<open>created\<close> are written when the task is created and are never removed; the other keys are
  absent (\<open>None\<close> to \<open>dict.get\<close>) until the worker writes them.
\<close>

record task =
  status :: string
  progress :: int
  url :: json
  created :: rat
  filename :: "string option"
  filepath :: "string option"
  title :: "string option"
  error :: "string option"

type_synonym tasks = "string \<rightharpoonup> task"

text \<open>The dict that yt-dlp passes to a progress hook.\<close>

record progress_event =
  ev_status :: "string option"
  downloaded_bytes :: "pynum option"
  total_bytes :: "pynum option"
  total_bytes_estimate :: "pynum option"

definition event_total :: "progress_event \<Rightarrow> pynum" where
  "event_total d = or_zero (or_num (total_bytes d) (total_bytes_estimate d))"

definition update_progress :: "tasks \<Rightarrow> string \<Rightarrow> progress_event \<Rightarrow> tasks" where
  "update_progress tasks task_id d =
     (case tasks task_id of
        None \<Rightarrow> tasks
      | Some t \<Rightarrow>
          if ev_status d = Some ''downloading'' then
            (let downloaded = or_zero (downloaded_bytes d);
                 tot = event_total d
             in if num_val tot \<noteq> 0
                then tasks(task_id \<mapsto> t\<lparr>progress := pct_of downloaded tot\<rparr>)
                else tasks(task_id \<mapsto> t\<lparr>progress := progress t\<rparr>))
          else tasks)"

section \<open>The media descriptor and the choice of a direct URL\<close>

text \<open>
  The info dict of yt-dlp, with the keys the code reads. A key that is absent or \<open>None\<close> is
  \<open>None\<close>; heights, bitrates and sizes are compared as exact numbers, as Python compares
  ints with floats.
\<close>

record fmt =
  height :: "rat option"
  tbr :: "rat option"
  filesize :: "rat option"
  fmt_url :: "string option"

record info =
  is_live :: "bool option"
  requested_formats :: "fmt list option"
  formats :: "fmt list option"
  info_url :: "string option"
  info_title :: "string option"

definition num_or0 :: "rat option \<Rightarrow> rat" where
  "num_or0 v = (case v of None \<Rightarrow> 0 | Some r \<Rightarrow> r)"

definition fmt_key :: "fmt \<Rightarrow> rat \<times> rat \<times> rat" where
  "fmt_key x = (num_or0 (height x), num_or0 (tbr x), num_or0 (filesize x))"

text \<open>\<open>a > b\<close> on two triples: the first component that differs decides.\<close>

fun key_gt :: "rat \<times> rat \<times> rat \<Rightarrow> rat \<times> rat \<times> rat \<Rightarrow> bool" where
  "key_gt (a1, b1, c1) (a2, b2, c2) =
     (if a1 \<noteq> a2 then a2 < a1 else if b1 \<noteq> b2 then b2 < b1 else c2 < c1)"

text \<open>
  \<open>max(xs, key=k)\<close> on a non-empty list: the running maximum is replaced only by an item
  whose key is strictly greater, so the first of several maximal items is returned.
\<close>

fun py_max :: "('a \<Rightarrow> rat \<times> rat \<times> rat) \<Rightarrow> 'a \<Rightarrow> 'a list \<Rightarrow> 'a" where
  "py_max k best [] = best"
| "py_max k best (x # xs) = py_max k (if key_gt (k x) (k best) then x else best) xs"

definition list_truthy :: "'a list option \<Rightarrow> bool" where
  "list_truthy v = (case v of None \<Rightarrow> False | Some xs \<Rightarrow> xs \<noteq> [])"

definition candidates :: "info \<Rightarrow> fmt list" where
  "candidates i =
     (if list_truthy (requested_formats i) then the (requested_formats i)
      else if list_truthy (formats i) then the (formats i)
      else [])"

text \<open>The argument is \<open>None\<close> when the collaborator returned something that is not a dict.\<close>

definition choose_direct_url :: "info option \<Rightarrow> string option" where
  "choose_direct_url v =
     (case v of
        None \<Rightarrow> None
      | Some i \<Rightarrow>
          if is_live i = Some True then None
          else (case candidates i of
                  [] \<Rightarrow> info_url i
                | f # fs \<Rightarrow> fmt_url (py_max fmt_key f fs)))"

definition str_truthy :: "string option \<Rightarrow> bool" where
  "str_truthy v = (case v of None \<Rightarrow> False | Some s \<Rightarrow> s \<noteq> [])"

section \<open>The bounded resolver\<close>

text \<open>
  What the resolving thread has done when \<open>join(timeout)\<close> returns: it is still running, it
  raised, or it returned the info dict (\<open>None\<close> when the value is not a dict).
\<close>

datatype exc = Exc string

datatype thread_state = StillAlive | HasRaised exc | HasReturned "info option"

datatype err = ErrTimeout | ErrExc exc

definition extract_info_with_timeout :: "thread_state \<Rightarrow> info option \<times> err option" where
  "extract_info_with_timeout th =
     (case th of
        StillAlive \<Rightarrow> (None, Some ErrTimeout)
      | HasRaised e \<Rightarrow> (None, Some (ErrExc e))
      | HasReturned i \<Rightarrow> (i, None))"

section \<open>The background worker\<close>

text \<open>
  What the collaborator does inside \<open>extract_info(url, download=True)\<close> and
  \<open>prepare_filename\<close>: it calls the progress hook with a list of events, then either returns
  the info dict and the file name or raises.
\<close>

datatype collab_result = Saved "info option" string | Raised exc

record collab_run =
  hook_events :: "progress_event list"
  outcome :: collab_result

definition em_dash :: string where
  "em_dash = [CHR 0xE2, CHR 0x80, CHR 0x94]"

definition TASK_ERROR :: string where
  "TASK_ERROR =
     ''Download failed on server '' @ em_dash @ '' try again or use the local yt-dlp command''"

definition STATUS_ERROR :: string where
  "STATUS_ERROR =
     ''Download failed on server '' @ em_dash @ '' check server logs or try the local command''"

text \<open>\<open>os.path.basename\<close>: what follows the last slash.\<close>

definition basename :: "string \<Rightarrow> string" where
  "basename p = rev (takeWhile (\<lambda>c. c \<noteq> CHR ''/'') (rev p))"

text \<open>
  The worker holds the dict \<open>t = _tasks[task_id]\<close> and writes to it; no code replaces or
  removes an entry of \<open>_tasks\<close>, so writing to \<open>t\<close> is writing to the entry of the store.
\<close>

definition task_update :: "tasks \<Rightarrow> string \<Rightarrow> (task \<Rightarrow> task) \<Rightarrow> tasks" where
  "task_update tasks task_id f =
     (case tasks task_id of None \<Rightarrow> tasks | Some t \<Rightarrow> tasks(task_id \<mapsto> f t))"

definition worker_begin :: "tasks \<Rightarrow> string \<Rightarrow> tasks" where
  "worker_begin tasks task_id = task_update tasks task_id (\<lambda>t. t\<lparr>status := ''downloading''\<rparr>)"

definition worker_end :: "tasks \<Rightarrow> string \<Rightarrow> collab_result \<Rightarrow> tasks" where
  "worker_end tasks task_id r =
     (case r of
        Saved i fname \<Rightarrow>
          task_update tasks task_id
            (\<lambda>t. t\<lparr>status := ''completed'',
                   progress := 100,
                   filename := Some (basename fname),
                   filepath := Some fname,
                   title := (case i of None \<Rightarrow> None | Some d \<Rightarrow> info_title d)\<rparr>)
      | Raised e \<Rightarrow>
          task_update tasks task_id
            (\<lambda>t. t\<lparr>status := ''failed'', error := Some TASK_ERROR\<rparr>))"

definition download_background :: "tasks \<Rightarrow> string \<Rightarrow> collab_run \<Rightarrow> py_error + tasks" where
  "download_background tasks task_id run =
     (case tasks task_id of
        None \<Rightarrow> Inl KeyError
      | Some t \<Rightarrow>
          (let s1 = worker_begin tasks task_id;
               s2 = foldl (\<lambda>s d. update_progress s task_id d) s1 (hook_events run)
           in Inr (worker_end s2 task_id (outcome run))))"

section \<open>The HTTP handlers\<close>

datatype response =
    Json nat "(string \<times> json) list"
  | SendFile string "string option"
  | Uncaught py_error

text \<open>
  What a handler does besides answering, in program order: a call of
  \<open>extract_info(url, download=...)\<close>, an insertion into \<open>_tasks\<close>, the start of a worker
  thread with its task id, URL and output template.
\<close>

datatype effect =
    ExtractInfo json bool
  | StoreInsert string
  | ThreadStart string json string

record result =
  resp :: response
  store :: tasks
  effects :: "effect list"

text \<open>
  What the handler takes from its environment: the value of \<open>uuid.uuid4()\<close>, the clock, and
  what the resolving thread has done after eight seconds.
\<close>

record env =
  uuid4 :: string
  now :: rat
  resolver :: "json \<Rightarrow> thread_state"

definition no_allowed_domain :: "json \<Rightarrow> py_error + bool" where
  "no_allowed_domain u =
     (case py_in ''xiaohongshu.com'' u of
        Inl e \<Rightarrow> Inl e
      | Inr a \<Rightarrow>
          if a then Inr False
          else (case py_in ''xhslink.com'' u of Inl e \<Rightarrow> Inl e | Inr b \<Rightarrow> Inr (\<not> b)))"

definition out_template :: "string \<Rightarrow> string" where
  "out_template task_id = ''downloads_v2/'' @ task_id @ ''_%(title)s.%(ext)s''"

definition answer :: "tasks \<Rightarrow> response \<Rightarrow> result" where
  "answer tasks r = \<lparr>resp = r, store = tasks, effects = []\<rparr>"

definition direct_mode :: "env \<Rightarrow> tasks \<Rightarrow> json \<Rightarrow> result" where
  "direct_mode e tasks u =
     (let (i, er) = extract_info_with_timeout (resolver e u);
          r = (if er = Some ErrTimeout then Json 504 [(''error'', JStr ''preparation timed out'')]
               else if er \<noteq> None then
                 Json 502 [(''error'', JStr (''could not prepare browser download '' @ em_dash
                             @ '' try again or use the local command''))]
               else (let direct = choose_direct_url i
                     in if str_truthy direct then Json 200 [(''direct_url'', JStr (the direct))]
                        else Json 422 [(''error'', JStr ''no direct downloadable stream found'')]))
      in \<lparr>resp = r, store = tasks, effects = [ExtractInfo u False]\<rparr>)"

definition start_job :: "env \<Rightarrow> tasks \<Rightarrow> json \<Rightarrow> result" where
  "start_job e tasks u =
     (let task_id = uuid4 e
      in \<lparr>resp = Json 200 [(''task_id'', JStr task_id)],
          store = tasks(task_id \<mapsto>
                    \<lparr>status = ''queued'', progress = 0, url = u, created = now e,
                     filename = None, filepath = None, title = None, error = None\<rparr>),
          effects = [StoreInsert task_id, ThreadStart task_id u (out_template task_id)]\<rparr>)"

text \<open>
  \<open>body\<close> is the value of \<open>request.get_json()\<close>. A body that is falsy is replaced by the empty
  dict; one that is truthy but not a dict has no \<open>get\<close>. A request that Flask cannot parse as
  JSON is answered by Flask before this code runs. An exception that the handler does not
  catch is the answer \<open>Uncaught\<close> (Flask turns it into a 500).
\<close>

definition api_start_download :: "env \<Rightarrow> tasks \<Rightarrow> json \<Rightarrow> result" where
  "api_start_download e tasks body =
     (case (if truthy body then body else JObj []) of
        JObj data \<Rightarrow>
          (let u = dict_get data ''url''; mode = dict_get data ''mode''
           in if \<not> truthy u then answer tasks (Json 400 [(''error'', JStr ''url is required'')])
              else (case no_allowed_domain u of
                      Inl ex \<Rightarrow> answer tasks (Uncaught ex)
                    | Inr True \<Rightarrow> answer tasks (Json 400 [(''error'', JStr ''invalid rednote url'')])
                    | Inr False \<Rightarrow>
                        if mode = JStr ''direct'' then direct_mode e tasks u
                        else start_job e tasks u))
      | _ \<Rightarrow> answer tasks (Uncaught AttributeError))"

definition opt_str :: "string option \<Rightarrow> json" where
  "opt_str v = (case v of None \<Rightarrow> JNull | Some s \<Rightarrow> JStr s)"

definition api_status :: "tasks \<Rightarrow> string \<Rightarrow> response" where
  "api_status tasks task_id =
     (case tasks task_id of
        None \<Rightarrow> Json 404 [(''error'', JStr ''not found'')]
      | Some t \<Rightarrow>
          (let r = [(''status'', JStr (status t)),
                    (''progress'', JNum (of_int (progress t))),
                    (''filename'', opt_str (filename t)),
                    (''title'', opt_str (title t))]
           in Json 200 (if status t = ''failed'' then r @ [(''error'', JStr STATUS_ERROR)] else r)))"

text \<open>\<open>exists\<close> is \<open>os.path.exists\<close>: the state of the disk when the request is served.\<close>

definition api_download_file :: "(string \<Rightarrow> bool) \<Rightarrow> tasks \<Rightarrow> string \<Rightarrow> response" where
  "api_download_file exists tasks task_id =
     (case tasks task_id of
        None \<Rightarrow> Json 404 [(''error'', JStr ''not found'')]
      | Some t \<Rightarrow>
          if status t \<noteq> ''completed'' then Json 400 [(''error'', JStr ''not completed'')]
          else if \<not> str_truthy (filepath t) then Json 404 [(''error'', JStr ''file missing'')]
          else if \<not> exists (the (filepath t)) then Json 404 [(''error'', JStr ''file missing'')]
          else SendFile (the (filepath t)) (filename t))"

section \<open>Reachable stores\<close>

text \<open>
  The stores the running server can be in. A request is served from any reachable store;
  \<open>uuid4\<close> is taken to return an id that is not in the store. A worker is at one of three
  places of its code, and the status of its task says which: \<open>queued\<close> before its first
  statement, \<open>downloading\<close> while the collaborator runs (the only time the progress hook is
  called), \<open>completed\<close> or \<open>failed\<close> after its last write.
\<close>

inductive reachable :: "tasks \<Rightarrow> bool" where
  boot: "reachable Map.empty"
| served: "reachable s \<Longrightarrow> uuid4 e \<notin> dom s \<Longrightarrow> reachable (store (api_start_download e s body))"
| started: "reachable s \<Longrightarrow> s task_id = Some t \<Longrightarrow> status t = ''queued'' \<Longrightarrow>
            reachable (worker_begin s task_id)"
| hooked: "reachable s \<Longrightarrow> s task_id = Some t \<Longrightarrow> status t = ''downloading'' \<Longrightarrow>
         reachable (update_progress s task_id d)"
| finished: "reachable s \<Longrightarrow> s task_id = Some t \<Longrightarrow> status t = ''downloading'' \<Longrightarrow>
           reachable (worker_end s task_id r)"

section \<open>Notions of the specification\<close>

text \<open>
  The lexicographic order on (height, bitrate, filesize) and the clamp of a percentage, as
  the specification words them; the theorems below compare the code with them.
\<close>

fun lex_le :: "rat \<times> rat \<times> rat \<Rightarrow> rat \<times> rat \<times> rat \<Rightarrow> bool" where
  "lex_le (a1, b1, c1) (a2, b2, c2) =
     (a1 < a2 \<or> (a1 = a2 \<and> (b1 < b2 \<or> (b1 = b2 \<and> c1 \<le> c2))))"

definition clamp :: "int \<Rightarrow> int \<Rightarrow> int \<Rightarrow> int" where
  "clamp lo hi x = max lo (min hi x)"

text \<open>
  The key of a candidate format, "missing fields treated as 0": an absent height, bitrate or
  file size counts as 0, a present one as its value.
\<close>

fun zero_if_missing :: "rat option \<Rightarrow> rat" where
  "zero_if_missing None = 0"
| "zero_if_missing (Some r) = r"

definition spec_key :: "fmt \<Rightarrow> rat \<times> rat \<times> rat" where
  "spec_key f = (zero_if_missing (height f), zero_if_missing (tbr f), zero_if_missing (filesize f))"

section \<open>Concrete inputs\<close>

text \<open>An environment whose resolving thread is still running when the wait ends.\<close>

definition demo_env :: env where
  "demo_env = \<lparr>uuid4 = ''0a1b'', now = 1700000000, resolver = (\<lambda>u. StillAlive)\<rparr>"

text \<open>The two formats of the descriptor that the specification uses as its example.\<close>

definition f480 :: fmt where
  "f480 = \<lparr>height = Some 480, tbr = Some 500, filesize = Some 1000,
           fmt_url = Some ''https://cdn.example/480.mp4''\<rparr>"

definition f720 :: fmt where
  "f720 = \<lparr>height = Some 720, tbr = Some 300, filesize = Some 2000,
           fmt_url = Some ''https://cdn.example/720.mp4''\<rparr>"

definition vod_info :: info where
  "vod_info = \<lparr>is_live = None, requested_formats = None, formats = Some [f480, f720],
               info_url = None, info_title = Some ''clip''\<rparr>"

definition live_info :: info where
  "live_info = \<lparr>is_live = Some True, requested_formats = None, formats = Some [f480, f720],
                info_url = Some ''https://cdn.example/live.m3u8'', info_title = Some ''live''\<rparr>"

text \<open>An environment whose resolving thread has returned the descriptor \<open>i\<close> in time.\<close>

definition resolved_env :: "info \<Rightarrow> env" where
  "resolved_env i =
     \<lparr>uuid4 = ''0a1b'', now = 1700000000, resolver = (\<lambda>u. HasReturned (Some i))\<rparr>"

definition note_url :: json where
  "note_url = JStr ''https://www.xiaohongshu.com/explore/1''"

definition direct_body :: json where
  "direct_body = JObj [(''url'', note_url), (''mode'', JStr ''direct'')]"

definition job_body :: json where
  "job_body = JObj [(''url'', note_url)]"

text \<open>A store with one task in each of three states, and a disk that holds one file.\<close>

definition queued_task :: task where
  "queued_task = \<lparr>status = ''queued'', progress = 0, url = note_url, created = 1700000000,
                  filename = None, filepath = None, title = None, error = None\<rparr>"

definition done_task :: task where
  "done_task = queued_task\<lparr>status := ''completed'', progress := 100,
                 filename := Some ''a_clip.mp4'', filepath := Some ''downloads_v2/a_clip.mp4'',
                 title := Some ''clip''\<rparr>"

definition swept_task :: task where
  "swept_task = queued_task\<lparr>status := ''completed'', progress := 100,
                  filename := Some ''b_clip.mp4'', filepath := Some ''downloads_v2/b_clip.mp4'',
                  title := Some ''clip''\<rparr>"

definition demo_store :: tasks where
  "demo_store = [''q'' \<mapsto> queued_task, ''a'' \<mapsto> done_task, ''b'' \<mapsto> swept_task]"

definition demo_disk :: "string \<Rightarrow> bool" where
  "demo_disk p = (p = ''downloads_v2/a_clip.mp4'')"

text \<open>Progress events, and a run of the collaborator that reports one and then raises.\<close>

definition half_event :: progress_event where
  "half_event = \<lparr>ev_status = Some ''downloading'', downloaded_bytes = Some (PyInt 50),
                 total_bytes = Some (PyInt 100), total_bytes_estimate = None\<rparr>"

definition failing_run :: collab_run where
  "failing_run =
     \<lparr>hook_events = [half_event],
      outcome = Raised (Exc ''[Errno 28] No space left on device: /srv/app/downloads_v2/q.mp4'')\<rparr>"

text \<open>
  A store whose only task is being downloaded, and events of its download: 29 of 100
  bytes; 50 bytes of an estimated 100, then 60 bytes of an estimated 300; an event with no
  total; the event that ends a download.
\<close>

definition downloading_task :: task where
  "downloading_task = queued_task\<lparr>status := ''downloading''\<rparr>"

definition running_store :: tasks where
  "running_store = [''0a1b'' \<mapsto> downloading_task]"

definition event_29_of_100 :: progress_event where
  "event_29_of_100 = \<lparr>ev_status = Some ''downloading'', downloaded_bytes = Some (PyInt 29),
                       total_bytes = Some (PyInt 100), total_bytes_estimate = None\<rparr>"

definition first_estimate :: progress_event where
  "first_estimate = \<lparr>ev_status = Some ''downloading'', downloaded_bytes = Some (PyInt 50),
                      total_bytes = None, total_bytes_estimate = Some (PyFloat 100)\<rparr>"

definition later_estimate :: progress_event where
  "later_estimate = \<lparr>ev_status = Some ''downloading'', downloaded_bytes = Some (PyInt 60),
                      total_bytes = None, total_bytes_estimate = Some (PyFloat 300)\<rparr>"

definition no_total_event :: progress_event where
  "no_total_event = \<lparr>ev_status = Some ''downloading'', downloaded_bytes = Some (PyInt 70),
                      total_bytes = None, total_bytes_estimate = None\<rparr>"

definition finished_event :: progress_event where
  "finished_event = \<lparr>ev_status = Some ''finished'', downloaded_bytes = Some (PyInt 100),
                      total_bytes = Some (PyInt 100), total_bytes_estimate = None\<rparr>"

definition same_estimate :: progress_event where
  "same_estimate = \<lparr>ev_status = Some ''downloading'', downloaded_bytes = Some (PyInt 80),
                     total_bytes = None, total_bytes_estimate = Some (PyFloat 100)\<rparr>"

text \<open>The store after the collaborator has saved the file of the running task.\<close>

definition saved_store :: tasks where
  "saved_store =
     worker_end running_store ''0a1b'' (Saved (Some vod_info) ''downloads_v2/0a1b_clip.mp4'')"

text \<open>
  Formats with missing fields: one with no height but a high bitrate and size, one with
  height 1 and nothing else, one with only a bitrate.
\<close>

definition f_no_height :: fmt where
  "f_no_height = \<lparr>height = None, tbr = Some 9000, filesize = Some 5000,
                  fmt_url = Some ''https://cdn.example/audio.m4a''\<rparr>"

definition f_height_only :: fmt where
  "f_height_only = \<lparr>height = Some 1, tbr = None, filesize = None,
                    fmt_url = Some ''https://cdn.example/tiny.mp4''\<rparr>"

definition f_bitrate_only :: fmt where
  "f_bitrate_only = \<lparr>height = None, tbr = Some 9000, filesize = None,
                     fmt_url = Some ''https://cdn.example/other.m4a''\<rparr>"

definition sparse_info :: info where
  "sparse_info = \<lparr>is_live = Some False, requested_formats = Some [],
                  formats = Some [f_bitrate_only, f_no_height, f_height_only],
                  info_url = Some ''https://cdn.example/top.mp4'', info_title = None\<rparr>"

text \<open>A run of the collaborator that raises at once, before any progress event.\<close>

definition instant_failure :: collab_run where
  "instant_failure =
     \<lparr>hook_events = [],
      outcome = Raised (Exc ''ERROR: Unsupported URL: https://www.xiaohongshu.com/explore/1'')\<rparr>"

section \<open>Validation of the submitted URL\<close>

lemma starts_with_iff: "starts_with needle hay \<longleftrightarrow> (\<exists>suf. hay = needle @ suf)"
  by (induction needle hay rule: starts_with.induct) auto

lemma str_contains_iff: "str_contains needle hay \<longleftrightarrow> (\<exists>pre suf. hay = pre @ needle @ suf)"
proof (induction hay)
  case Nil
  then show ?case by auto
next
  case (Cons h hs)
  show ?case
  proof
    assume "str_contains needle (h # hs)"
    then consider "starts_with needle (h # hs)" | "str_contains needle hs" by auto
    then show "\<exists>pre suf. h # hs = pre @ needle @ suf"
    proof cases
      case 1
      then obtain suf where "h # hs = needle @ suf" by (auto simp: starts_with_iff)
      then have "h # hs = [] @ needle @ suf" by simp
      then show ?thesis by blast
    next
      case 2
      then obtain pre suf where "hs = pre @ needle @ suf" using Cons.IH by auto
      then have "h # hs = (h # pre) @ needle @ suf" by simp
      then show ?thesis by blast
    qed
  next
    assume "\<exists>pre suf. h # hs = pre @ needle @ suf"
    then obtain pre suf where eq: "h # hs = pre @ needle @ suf" by auto
    show "str_contains needle (h # hs)"
    proof (cases pre)
      case Nil
      then have "starts_with needle (h # hs)" using eq by (auto simp: starts_with_iff)
      then show ?thesis by simp
    next
      case (Cons p ps)
      then have "hs = ps @ needle @ suf" using eq by simp
      then have "str_contains needle hs" using Cons.IH by auto
      then show ?thesis by simp
    qed
  qed
qed

lemma body_data: "(if truthy (JObj data) then JObj data else JObj []) = JObj data"
  by (cases data) auto

text \<open>
  C2 (as the code has it). When the body is falsy (null, empty) or is a JSON object whose
  \<open>url\<close> field is absent, null or empty (any falsy value), the answer is 400 with \<open>error\<close>
  "url is required"; when the body is a JSON object whose \<open>url\<close> is a non-empty string that
  contains neither allowed domain, the answer is 400 with \<open>error\<close> "invalid rednote url". In
  both cases the store is returned unchanged and the handler has no effect: no task is
  created and the collaborator is not called.
\<close>

theorem api_start_download_rejects:
  "(\<not> truthy body \<or> (\<exists>data. body = JObj data \<and> \<not> truthy (dict_get data ''url'')) \<longrightarrow>
      api_start_download e tasks body =
        \<lparr>resp = Json 400 [(''error'', JStr ''url is required'')],
         store = tasks, effects = []\<rparr>)
   \<and> (\<forall>data s. body = JObj data \<and> dict_get data ''url'' = JStr s \<and> s \<noteq> []
          \<and> \<not> str_contains ''xiaohongshu.com'' s \<and> \<not> str_contains ''xhslink.com'' s \<longrightarrow>
        api_start_download e tasks body =
          \<lparr>resp = Json 400 [(''error'', JStr ''invalid rednote url'')],
           store = tasks, effects = []\<rparr>)"
proof -
  have a: "api_start_download e tasks body =
             \<lparr>resp = Json 400 [(''error'', JStr ''url is required'')],
              store = tasks, effects = []\<rparr>"
    if "\<not> truthy body"
    using that by (simp add: api_start_download_def answer_def dict_get_def)
  have b: "api_start_download e tasks (JObj data) =
             \<lparr>resp = Json 400 [(''error'', JStr ''url is required'')],
              store = tasks, effects = []\<rparr>"
    if "\<not> truthy (dict_get data ''url'')" for data
    using that
    by (simp add: api_start_download_def body_data answer_def Let_def del: truthy.simps(6))
  have c: "api_start_download e tasks (JObj data) =
             \<lparr>resp = Json 400 [(''error'', JStr ''invalid rednote url'')],
              store = tasks, effects = []\<rparr>"
    if "dict_get data ''url'' = JStr s" "s \<noteq> []"
       "\<not> str_contains ''xiaohongshu.com'' s" "\<not> str_contains ''xhslink.com'' s" for data s
    using that
    by (simp add: api_start_download_def body_data answer_def no_allowed_domain_def Let_def
             del: truthy.simps(6))
  show ?thesis
    using a b c by blast
qed

theorem api_start_download_rejects_witness:
  "api_start_download demo_env Map.empty JNull =
     \<lparr>resp = Json 400 [(''error'', JStr ''url is required'')],
      store = Map.empty, effects = []\<rparr>
   \<and> api_start_download demo_env Map.empty (JObj [(''mode'', JStr ''direct'')]) =
     \<lparr>resp = Json 400 [(''error'', JStr ''url is required'')],
      store = Map.empty, effects = []\<rparr>
   \<and> api_start_download demo_env Map.empty (JObj [(''url'', JStr ''http://example.com/v'')]) =
     \<lparr>resp = Json 400 [(''error'', JStr ''invalid rednote url'')],
      store = Map.empty, effects = []\<rparr>"
proof -
  have a: "\<not> truthy JNull"
    by simp
  have b: "\<not> truthy (dict_get [(''mode'', JStr ''direct'')] ''url'')"
    by (simp add: dict_get_def)
  have c: "dict_get [(''url'', JStr ''http://example.com/v'')] ''url'' = JStr ''http://example.com/v''"
    by (simp add: dict_get_def)
  have d: "''http://example.com/v'' \<noteq> []
           \<and> \<not> str_contains ''xiaohongshu.com'' ''http://example.com/v''
           \<and> \<not> str_contains ''xhslink.com'' ''http://example.com/v''"
    by simp
  show ?thesis
    using api_start_download_rejects [of JNull demo_env Map.empty]
          api_start_download_rejects [of "JObj [(''mode'', JStr ''direct'')]" demo_env Map.empty]
          api_start_download_rejects
            [of "JObj [(''url'', JStr ''http://example.com/v'')]" demo_env Map.empty]
          a b c d
    by blast
qed

text \<open>
  The message for a URL outside the allow-list is "invalid rednote url", not "invalid source
  url".
\<close>

theorem invalid_url_message_is_rednote:
  "resp (api_start_download demo_env Map.empty (JObj [(''url'', JStr ''http://example.com/v'')]))
     = Json 400 [(''error'', JStr ''invalid rednote url'')]
   \<and> resp (api_start_download demo_env Map.empty (JObj [(''url'', JStr ''http://example.com/v'')]))
     \<noteq> Json 400 [(''error'', JStr ''invalid source url'')]"
  by (simp add: api_start_download_def dict_get_def answer_def no_allowed_domain_def)

text \<open>
  C10. The allow-list is a substring test. For a request whose body is a JSON object with a
  string \<open>url\<close>: when the string contains "xiaohongshu.com" or "xhslink.com" anywhere, the
  request passes validation and is handled by the direct resolver or by the job runner, and
  the answer is no 400; when the string is non-empty and contains neither, the answer is 400.
\<close>

theorem allow_list_is_substring_test:
  assumes "body = JObj data" and "dict_get data ''url'' = JStr s"
  shows "((\<exists>pre suf. s = pre @ ''xiaohongshu.com'' @ suf \<or> s = pre @ ''xhslink.com'' @ suf) \<longrightarrow>
            api_start_download e tasks body =
              (if dict_get data ''mode'' = JStr ''direct'' then direct_mode e tasks (JStr s)
               else start_job e tasks (JStr s))
            \<and> (\<forall>b. resp (api_start_download e tasks body) \<noteq> Json 400 b))
       \<and> (s \<noteq> [] \<and> \<not> (\<exists>pre suf. s = pre @ ''xiaohongshu.com'' @ suf \<or> s = pre @ ''xhslink.com'' @ suf) \<longrightarrow>
            resp (api_start_download e tasks body) =
              Json 400 [(''error'', JStr ''invalid rednote url'')])"
proof -
  have c: "(\<exists>pre suf. s = pre @ ''xiaohongshu.com'' @ suf \<or> s = pre @ ''xhslink.com'' @ suf)
             \<longleftrightarrow> str_contains ''xiaohongshu.com'' s \<or> str_contains ''xhslink.com'' s"
    unfolding str_contains_iff by blast
  have ne: "str_contains ''xiaohongshu.com'' s \<or> str_contains ''xhslink.com'' s \<Longrightarrow> s \<noteq> []"
    by auto
  have nd: "no_allowed_domain (JStr s) =
              Inr (\<not> (str_contains ''xiaohongshu.com'' s \<or> str_contains ''xhslink.com'' s))"
    by (simp add: no_allowed_domain_def)
  have d: "\<And>b. resp (direct_mode e tasks (JStr s)) \<noteq> Json 400 b"
    by (simp add: direct_mode_def Let_def split: prod.splits)
  have j: "\<And>b. resp (start_job e tasks (JStr s)) \<noteq> Json 400 b"
    by (simp add: start_job_def Let_def)
  show ?thesis
    unfolding c using assms ne d j
    by (auto simp: api_start_download_def body_data nd answer_def Let_def
             simp del: truthy.simps(6))
qed

theorem allow_list_is_substring_test_witness:
  "api_start_download demo_env Map.empty
     (JObj [(''url'', JStr ''http://evil.example/?q=xiaohongshu.com'')]) =
     start_job demo_env Map.empty (JStr ''http://evil.example/?q=xiaohongshu.com'')
   \<and> resp (api_start_download demo_env Map.empty
        (JObj [(''url'', JStr ''http://example.com/v'')])) =
     Json 400 [(''error'', JStr ''invalid rednote url'')]"
proof -
  have a: "''http://evil.example/?q=xiaohongshu.com''
             = ''http://evil.example/?q='' @ ''xiaohongshu.com'' @ []"
    by simp
  have b: "\<not> (\<exists>pre suf. ''http://example.com/v'' = pre @ ''xiaohongshu.com'' @ suf
              \<or> ''http://example.com/v'' = pre @ ''xhslink.com'' @ suf)"
    using str_contains_iff [of "''xiaohongshu.com''" "''http://example.com/v''"]
          str_contains_iff [of "''xhslink.com''" "''http://example.com/v''"]
    by simp
  have a': "\<exists>pre suf. ''http://evil.example/?q=xiaohongshu.com'' = pre @ ''xiaohongshu.com'' @ suf
              \<or> ''http://evil.example/?q=xiaohongshu.com'' = pre @ ''xhslink.com'' @ suf"
    using a by blast
  show ?thesis
    using allow_list_is_substring_test
            [of "JObj [(''url'', JStr ''http://evil.example/?q=xiaohongshu.com'')]"
                "[(''url'', JStr ''http://evil.example/?q=xiaohongshu.com'')]"
                "''http://evil.example/?q=xiaohongshu.com''" demo_env Map.empty]
          allow_list_is_substring_test
            [of "JObj [(''url'', JStr ''http://example.com/v'')]"
                "[(''url'', JStr ''http://example.com/v'')]"
                "''http://example.com/v''" demo_env Map.empty]
          a' b
    by (simp add: dict_get_def)
qed

section \<open>Serving the finished file\<close>

text \<open>
  C7. A request for the file of a task: an unknown id is answered 404 (as the status
  endpoint answers it); a task whose status is not \<open>completed\<close> is answered 400 and no file
  is sent; a completed task whose file path is unset, empty or not on disk is answered 404;
  otherwise the stored path is sent as an attachment under the stored file name.
\<close>

theorem api_download_file_cases:
  "(tasks task_id = None \<longrightarrow>
      api_download_file exists tasks task_id = Json 404 [(''error'', JStr ''not found'')]
      \<and> api_status tasks task_id = Json 404 [(''error'', JStr ''not found'')])
   \<and> (\<forall>t. tasks task_id = Some t \<and> status t \<noteq> ''completed'' \<longrightarrow>
          api_download_file exists tasks task_id = Json 400 [(''error'', JStr ''not completed'')])
   \<and> (\<forall>t. tasks task_id = Some t \<and> status t = ''completed''
            \<and> (filepath t = None \<or> filepath t = Some [] \<or> \<not> exists (the (filepath t))) \<longrightarrow>
          api_download_file exists tasks task_id = Json 404 [(''error'', JStr ''file missing'')])
   \<and> (\<forall>t p. tasks task_id = Some t \<and> status t = ''completed''
            \<and> filepath t = Some p \<and> p \<noteq> [] \<and> exists p \<longrightarrow>
          api_download_file exists tasks task_id = SendFile p (filename t))"
  by (auto simp: api_download_file_def api_status_def str_truthy_def split: option.splits)

theorem api_download_file_cases_witness:
  "api_download_file demo_disk demo_store ''zz'' = Json 404 [(''error'', JStr ''not found'')]
   \<and> api_download_file demo_disk demo_store ''q'' = Json 400 [(''error'', JStr ''not completed'')]
   \<and> api_download_file demo_disk demo_store ''b'' = Json 404 [(''error'', JStr ''file missing'')]
   \<and> api_download_file demo_disk demo_store ''a'' =
       SendFile ''downloads_v2/a_clip.mp4'' (Some ''a_clip.mp4'')"
  using api_download_file_cases [of demo_store "''zz''" demo_disk]
        api_download_file_cases [of demo_store "''q''" demo_disk]
        api_download_file_cases [of demo_store "''b''" demo_disk]
        api_download_file_cases [of demo_store "''a''" demo_disk]
  by (simp add: demo_store_def demo_disk_def queued_task_def done_task_def swept_task_def)

section \<open>The direct mode\<close>

lemma direct_mode_resp:
  "direct_mode e tasks u =
     \<lparr>resp = (case resolver e u of
                StillAlive \<Rightarrow> Json 504 [(''error'', JStr ''preparation timed out'')]
              | HasRaised x \<Rightarrow>
                  Json 502 [(''error'', JStr (''could not prepare browser download '' @ em_dash
                              @ '' try again or use the local command''))]
              | HasReturned i \<Rightarrow>
                  (if str_truthy (choose_direct_url i)
                   then Json 200 [(''direct_url'', JStr (the (choose_direct_url i)))]
                   else Json 422 [(''error'', JStr ''no direct downloadable stream found'')])),
      store = tasks, effects = [ExtractInfo u False]\<rparr>"
  by (simp add: direct_mode_def extract_info_with_timeout_def Let_def split: thread_state.splits)

lemma api_direct:
  assumes "truthy (dict_get data ''url'')"
    and "no_allowed_domain (dict_get data ''url'') = Inr False"
    and "dict_get data ''mode'' = JStr ''direct''"
  shows "api_start_download e tasks (JObj data) = direct_mode e tasks (dict_get data ''url'')"
  using assms by (simp add: api_start_download_def body_data Let_def del: truthy.simps(6))

lemma api_job:
  assumes "truthy (dict_get data ''url'')"
    and "no_allowed_domain (dict_get data ''url'') = Inr False"
    and "dict_get data ''mode'' \<noteq> JStr ''direct''"
  shows "api_start_download e tasks (JObj data) = start_job e tasks (dict_get data ''url'')"
  using assms by (simp add: api_start_download_def body_data Let_def del: truthy.simps(6))

lemma api_store_cases:
  "store (api_start_download e tasks body) = tasks
   \<or> (\<exists>u. api_start_download e tasks body = start_job e tasks u)"
  by (auto simp: api_start_download_def answer_def direct_mode_resp Let_def
           split: json.splits sum.splits bool.splits)

text \<open>
  C5. For a descriptor whose \<open>is_live\<close> flag is true, whatever its formats and its top-level
  URL are, the choice of a direct URL yields nothing, and a direct-mode request whose
  resolver returned that descriptor is answered 422 "no direct downloadable stream found"
  (the answer of the NotApplicable and NoStreamFound failures), never a direct URL.
\<close>

theorem live_descriptor_not_applicable:
  assumes "is_live i = Some True"
  shows "choose_direct_url (Some i) = None
       \<and> (\<forall>e tasks data.
             truthy (dict_get data ''url'')
             \<and> no_allowed_domain (dict_get data ''url'') = Inr False
             \<and> dict_get data ''mode'' = JStr ''direct''
             \<and> resolver e (dict_get data ''url'') = HasReturned (Some i) \<longrightarrow>
             resp (api_start_download e tasks (JObj data)) =
               Json 422 [(''error'', JStr ''no direct downloadable stream found'')])"
proof -
  have c: "choose_direct_url (Some i) = None"
    using assms by (simp add: choose_direct_url_def)
  show ?thesis
    using c by (auto simp: api_direct direct_mode_resp str_truthy_def)
qed

theorem live_descriptor_not_applicable_witness:
  "is_live live_info = Some True
   \<and> candidates live_info = [f480, f720]
   \<and> choose_direct_url (Some live_info) = None
   \<and> resp (api_start_download (resolved_env live_info) Map.empty direct_body) =
       Json 422 [(''error'', JStr ''no direct downloadable stream found'')]"
proof -
  have l: "is_live live_info = Some True"
    by (simp add: live_info_def)
  have c: "candidates live_info = [f480, f720]"
    by (simp add: live_info_def candidates_def list_truthy_def)
  have u: "dict_get [(''url'', note_url), (''mode'', JStr ''direct'')] ''url'' = note_url"
          "dict_get [(''url'', note_url), (''mode'', JStr ''direct'')] ''mode'' = JStr ''direct''"
    by (simp_all add: dict_get_def)
  have v: "truthy note_url" "no_allowed_domain note_url = Inr False"
    by (simp_all add: note_url_def no_allowed_domain_def)
  have r: "resolver (resolved_env live_info) note_url = HasReturned (Some live_info)"
    by (simp add: resolved_env_def)
  show ?thesis
    using live_descriptor_not_applicable [OF l] l c u v r
    unfolding direct_body_def by metis
qed

text \<open>
  C8. A request with \<open>mode\<close> equal to "direct" returns the store it was given, so it inserts
  no task; its only possible effect is one call of \<open>extract_info\<close> with \<open>download=False\<close>, so
  it starts no worker and asks for no file to be written. When the URL passes validation
  that call is made, and the answer is determined by what the resolving thread did: 504
  when it is still running (Timeout), 502 when it raised (ExtractionFailed), 200 with a
  non-empty \<open>direct_url\<close> when the descriptor yields one, and 422 otherwise (NotApplicable,
  NoStreamFound).
\<close>

theorem direct_mode_frame:
  assumes "body = JObj data" and "dict_get data ''mode'' = JStr ''direct''"
  shows "store (api_start_download e tasks body) = tasks
       \<and> (\<forall>x \<in> set (effects (api_start_download e tasks body)).
             x = ExtractInfo (dict_get data ''url'') False)
       \<and> (truthy (dict_get data ''url'')
             \<and> no_allowed_domain (dict_get data ''url'') = Inr False \<longrightarrow>
           effects (api_start_download e tasks body) = [ExtractInfo (dict_get data ''url'') False]
           \<and> resp (api_start_download e tasks body) =
               (case resolver e (dict_get data ''url'') of
                  StillAlive \<Rightarrow> Json 504 [(''error'', JStr ''preparation timed out'')]
                | HasRaised x \<Rightarrow>
                    Json 502 [(''error'', JStr (''could not prepare browser download '' @ em_dash
                                @ '' try again or use the local command''))]
                | HasReturned i \<Rightarrow>
                    (case choose_direct_url i of
                       None \<Rightarrow> Json 422 [(''error'', JStr ''no direct downloadable stream found'')]
                     | Some d \<Rightarrow>
                         if d \<noteq> [] then Json 200 [(''direct_url'', JStr d)]
                         else Json 422 [(''error'', JStr ''no direct downloadable stream found'')])))"
proof -
  let ?u = "dict_get data ''url''"
  consider (falsy) "\<not> truthy ?u"
    | (raised) ex where "truthy ?u" and "no_allowed_domain ?u = Inl ex"
    | (refused) "truthy ?u" and "no_allowed_domain ?u = Inr True"
    | (valid) "truthy ?u" and "no_allowed_domain ?u = Inr False"
    by (cases "no_allowed_domain ?u") auto
  then show ?thesis
  proof cases
    case falsy
    then have "api_start_download e tasks (JObj data) =
                 answer tasks (Json 400 [(''error'', JStr ''url is required'')])"
      by (simp add: api_start_download_def body_data Let_def del: truthy.simps(6))
    then show ?thesis
      using falsy assms(1) by (simp add: answer_def)
  next
    case raised
    then have "api_start_download e tasks (JObj data) = answer tasks (Uncaught ex)"
      by (simp add: api_start_download_def body_data Let_def del: truthy.simps(6))
    then show ?thesis
      using raised assms(1) by (simp add: answer_def)
  next
    case refused
    then have "api_start_download e tasks (JObj data) =
                 answer tasks (Json 400 [(''error'', JStr ''invalid rednote url'')])"
      by (simp add: api_start_download_def body_data Let_def del: truthy.simps(6))
    then show ?thesis
      using refused assms(1) by (simp add: answer_def)
  next
    case valid
    then have "api_start_download e tasks (JObj data) = direct_mode e tasks ?u"
      using assms(2) by (rule api_direct)
    then show ?thesis
      using valid assms(1)
      by (simp add: direct_mode_resp str_truthy_def split: thread_state.splits option.splits)
  qed
qed

theorem direct_mode_frame_witness:
  "store (api_start_download (resolved_env vod_info) demo_store direct_body) = demo_store
   \<and> effects (api_start_download (resolved_env vod_info) demo_store direct_body) =
       [ExtractInfo note_url False]
   \<and> resp (api_start_download (resolved_env vod_info) demo_store direct_body) =
       Json 200 [(''direct_url'', JStr ''https://cdn.example/720.mp4'')]
   \<and> store (api_start_download demo_env demo_store direct_body) = demo_store
   \<and> resp (api_start_download demo_env demo_store direct_body) =
       Json 504 [(''error'', JStr ''preparation timed out'')]"
proof -
  have u: "dict_get [(''url'', note_url), (''mode'', JStr ''direct'')] ''url'' = note_url"
    by (simp add: dict_get_def)
  have m: "dict_get [(''url'', note_url), (''mode'', JStr ''direct'')] ''mode'' = JStr ''direct''"
    by (simp add: dict_get_def)
  have v: "truthy note_url \<and> no_allowed_domain note_url = Inr False"
    by (simp add: note_url_def no_allowed_domain_def)
  have c: "choose_direct_url (Some vod_info) = Some ''https://cdn.example/720.mp4''"
    by (simp add: choose_direct_url_def vod_info_def candidates_def list_truthy_def
                  f480_def f720_def fmt_key_def num_or0_def)
  have r: "resolver (resolved_env vod_info) note_url = HasReturned (Some vod_info)"
    by (simp add: resolved_env_def)
  have r': "resolver demo_env note_url = StillAlive"
    by (simp add: demo_env_def)
  note vod = direct_mode_frame [OF direct_body_def m, of "resolved_env vod_info" demo_store,
                                unfolded u]
  note late = direct_mode_frame [OF direct_body_def m, of demo_env demo_store, unfolded u]
  have a: "store (api_start_download (resolved_env vod_info) demo_store direct_body) = demo_store"
    using vod by blast
  have b: "effects (api_start_download (resolved_env vod_info) demo_store direct_body) =
             [ExtractInfo note_url False]"
    using vod v by blast
  have d: "resp (api_start_download (resolved_env vod_info) demo_store direct_body) =
             Json 200 [(''direct_url'', JStr ''https://cdn.example/720.mp4'')]"
    using vod v by (simp add: r c)
  have f: "store (api_start_download demo_env demo_store direct_body) = demo_store"
    using late by blast
  have g: "resp (api_start_download demo_env demo_store direct_body) =
             Json 504 [(''error'', JStr ''preparation timed out'')]"
    using late v by (simp add: r')
  show ?thesis
    using a b d f g by blast
qed

section \<open>Progress events change nothing but the progress\<close>

lemma update_progress_at:
  assumes "s task_id = Some t"
  shows "\<exists>p. update_progress s task_id d = s(task_id \<mapsto> t\<lparr>progress := p\<rparr>)"
proof (cases "ev_status d = Some ''downloading''")
  case True
  show ?thesis
  proof (cases "num_val (event_total d) = 0")
    case True
    with \<open>ev_status d = Some ''downloading''\<close> assms
    have "update_progress s task_id d = s(task_id \<mapsto> t\<lparr>progress := progress t\<rparr>)"
      by (simp add: update_progress_def Let_def)
    then show ?thesis by blast
  next
    case False
    with \<open>ev_status d = Some ''downloading''\<close> assms
    have "update_progress s task_id d =
            s(task_id \<mapsto> t\<lparr>progress := pct_of (or_zero (downloaded_bytes d)) (event_total d)\<rparr>)"
      by (simp add: update_progress_def Let_def)
    then show ?thesis by blast
  qed
next
  case False
  with assms have "update_progress s task_id d = s(task_id \<mapsto> t\<lparr>progress := progress t\<rparr>)"
    by (auto simp: update_progress_def)
  then show ?thesis by blast
qed

lemma hooks_at:
  assumes "s task_id = Some t"
  shows "\<exists>p. foldl (\<lambda>s d. update_progress s task_id d) s evs = s(task_id \<mapsto> t\<lparr>progress := p\<rparr>)"
  using assms
proof (induction evs arbitrary: s t)
  case Nil
  then have "s = s(task_id \<mapsto> t\<lparr>progress := progress t\<rparr>)"
    by (simp add: map_upd_triv)
  then have "foldl (\<lambda>s d. update_progress s task_id d) s [] =
               s(task_id \<mapsto> t\<lparr>progress := progress t\<rparr>)"
    by simp
  then show ?case by blast
next
  case (Cons d evs)
  obtain p where p: "update_progress s task_id d = s(task_id \<mapsto> t\<lparr>progress := p\<rparr>)"
    using update_progress_at [of s task_id t d] Cons.prems by blast
  let ?s = "s(task_id \<mapsto> t\<lparr>progress := p\<rparr>)"
  have "?s task_id = Some (t\<lparr>progress := p\<rparr>)" by simp
  from Cons.IH [of ?s "t\<lparr>progress := p\<rparr>"] this obtain q where
    "foldl (\<lambda>s d. update_progress s task_id d) ?s evs = ?s(task_id \<mapsto> t\<lparr>progress := p, progress := q\<rparr>)"
    by blast
  then have "foldl (\<lambda>s d. update_progress s task_id d) (s) (d # evs) = s(task_id \<mapsto> t\<lparr>progress := q\<rparr>)"
    using p by simp
  then show ?case by blast
qed

section \<open>Submitting a job\<close>

text \<open>
  C9 (as the code has it). For a request whose URL passes validation and whose mode is not
  "direct": the answer is 200 with the value of \<open>uuid4\<close> as \<open>task_id\<close>, whether or not that id
  is in the store, and the store is the old one with the entry of that id set to a record
  with status \<open>queued\<close>, progress 0, the URL and the time of the clock, every other entry
  unchanged; the insertion precedes the start of the worker thread. The status endpoint
  reports \<open>queued\<close> on the store the handler returns and \<open>downloading\<close> once the worker has
  made its first write; the status stays \<open>downloading\<close> through every progress event; and
  when the worker has run, whatever the collaborator did, the status is \<open>completed\<close> or
  \<open>failed\<close>.
\<close>

theorem submit_creates_queued_task:
  assumes "body = JObj data"
    and "truthy (dict_get data ''url'')"
    and "no_allowed_domain (dict_get data ''url'') = Inr False"
    and "dict_get data ''mode'' \<noteq> JStr ''direct''"
  shows "resp (api_start_download e tasks body) = Json 200 [(''task_id'', JStr (uuid4 e))]
       \<and> store (api_start_download e tasks body) =
           tasks(uuid4 e \<mapsto>
             \<lparr>status = ''queued'', progress = 0, url = dict_get data ''url'', created = now e,
              filename = None, filepath = None, title = None, error = None\<rparr>)
       \<and> (\<forall>k. k \<noteq> uuid4 e \<longrightarrow> store (api_start_download e tasks body) k = tasks k)
       \<and> effects (api_start_download e tasks body) =
           [StoreInsert (uuid4 e),
            ThreadStart (uuid4 e) (dict_get data ''url'') (out_template (uuid4 e))]
       \<and> api_status (store (api_start_download e tasks body)) (uuid4 e) =
           Json 200 [(''status'', JStr ''queued''), (''progress'', JNum 0),
                     (''filename'', JNull), (''title'', JNull)]
       \<and> api_status (worker_begin (store (api_start_download e tasks body)) (uuid4 e)) (uuid4 e) =
           Json 200 [(''status'', JStr ''downloading''), (''progress'', JNum 0),
                     (''filename'', JNull), (''title'', JNull)]
       \<and> (\<forall>evs. \<exists>t'.
             foldl (\<lambda>s d. update_progress s (uuid4 e) d)
               (worker_begin (store (api_start_download e tasks body)) (uuid4 e)) evs (uuid4 e)
               = Some t'
             \<and> status t' = ''downloading'')
       \<and> (\<forall>run. \<exists>s' t'.
             download_background (store (api_start_download e tasks body)) (uuid4 e) run = Inr s'
             \<and> s' (uuid4 e) = Some t'
             \<and> status t' = (case outcome run of Saved i f \<Rightarrow> ''completed''
                                               | Raised x \<Rightarrow> ''failed''))"
proof -
  have r: "api_start_download e tasks body = start_job e tasks (dict_get data ''url'')"
    using assms by (simp add: api_job)
  let ?t = "\<lparr>status = ''queued'', progress = 0, url = dict_get data ''url'', created = now e,
             filename = None, filepath = None, title = None, error = None\<rparr>"
  let ?s = "store (start_job e tasks (dict_get data ''url''))"
  let ?k = "uuid4 e"
  have at: "?s ?k = Some ?t"
    by (simp add: start_job_def Let_def)
  have w: "worker_begin ?s ?k ?k = Some (?t\<lparr>status := ''downloading''\<rparr>)"
    by (simp add: start_job_def Let_def worker_begin_def task_update_def)
  have fold: "\<exists>p. foldl (\<lambda>s d. update_progress s ?k d) (worker_begin ?s ?k) evs =
         (worker_begin ?s ?k)(?k \<mapsto> ?t\<lparr>status := ''downloading'', progress := p\<rparr>)" for evs
    using hooks_at [of "worker_begin ?s ?k" ?k "?t\<lparr>status := ''downloading''\<rparr>" evs] w
    by auto
  have h: "\<exists>t'. foldl (\<lambda>s d. update_progress s ?k d) (worker_begin ?s ?k) evs ?k = Some t'
             \<and> status t' = ''downloading''" for evs
  proof -
    obtain p where
      "foldl (\<lambda>s d. update_progress s ?k d) (worker_begin ?s ?k) evs =
         (worker_begin ?s ?k)(?k \<mapsto> ?t\<lparr>status := ''downloading'', progress := p\<rparr>)"
      using fold [of evs] by blast
    then show ?thesis by simp
  qed
  have d: "\<exists>s' t'. download_background ?s ?k run = Inr s' \<and> s' ?k = Some t'
             \<and> status t' = (case outcome run of Saved i f \<Rightarrow> ''completed''
                                               | Raised x \<Rightarrow> ''failed'')" for run
  proof -
    obtain p where
      f: "foldl (\<lambda>s d. update_progress s ?k d) (worker_begin ?s ?k) (hook_events run) =
         (worker_begin ?s ?k)(?k \<mapsto> ?t\<lparr>status := ''downloading'', progress := p\<rparr>)"
      using fold [of "hook_events run"] by blast
    show ?thesis
    proof (cases "outcome run")
      case (Saved i fn)
      then show ?thesis
        using at f by (simp add: download_background_def Let_def worker_end_def task_update_def)
    next
      case (Raised x)
      then show ?thesis
        using at f by (simp add: download_background_def Let_def worker_end_def task_update_def)
    qed
  qed
  have rest: "resp (start_job e tasks (dict_get data ''url'')) = Json 200 [(''task_id'', JStr ?k)]
       \<and> ?s = tasks(?k \<mapsto> ?t)
       \<and> (\<forall>k. k \<noteq> ?k \<longrightarrow> ?s k = tasks k)
       \<and> effects (start_job e tasks (dict_get data ''url'')) =
           [StoreInsert ?k, ThreadStart ?k (dict_get data ''url'') (out_template ?k)]
       \<and> api_status ?s ?k =
           Json 200 [(''status'', JStr ''queued''), (''progress'', JNum 0),
                     (''filename'', JNull), (''title'', JNull)]
       \<and> api_status (worker_begin ?s ?k) ?k =
           Json 200 [(''status'', JStr ''downloading''), (''progress'', JNum 0),
                     (''filename'', JNull), (''title'', JNull)]"
    by (simp add: start_job_def Let_def api_status_def worker_begin_def task_update_def
                  opt_str_def)
  show ?thesis
    unfolding r using rest h d by blast
qed

theorem submit_creates_queued_task_witness:
  "resp (api_start_download demo_env demo_store job_body) = Json 200 [(''task_id'', JStr ''0a1b'')]
   \<and> store (api_start_download demo_env demo_store job_body) = demo_store(''0a1b'' \<mapsto> queued_task)
   \<and> store (api_start_download demo_env demo_store job_body) ''a'' = demo_store ''a''
   \<and> api_status (store (api_start_download demo_env demo_store job_body)) ''0a1b'' =
       Json 200 [(''status'', JStr ''queued''), (''progress'', JNum 0),
                 (''filename'', JNull), (''title'', JNull)]
   \<and> effects (api_start_download demo_env demo_store job_body) =
       [StoreInsert ''0a1b'', ThreadStart ''0a1b'' note_url ''downloads_v2/0a1b_%(title)s.%(ext)s'']
   \<and> (\<exists>s' t'. download_background (store (api_start_download demo_env demo_store job_body))
                  ''0a1b'' instant_failure = Inr s'
          \<and> s' ''0a1b'' = Some t' \<and> status t' = ''failed'')"
proof -
  have u: "dict_get [(''url'', note_url)] ''url'' = note_url"
    by (simp add: dict_get_def)
  have m: "dict_get [(''url'', note_url)] ''mode'' \<noteq> JStr ''direct''"
    by (simp add: dict_get_def)
  have v: "truthy (dict_get [(''url'', note_url)] ''url'')"
    unfolding u by (simp add: note_url_def)
  have w: "no_allowed_domain (dict_get [(''url'', note_url)] ''url'') = Inr False"
    unfolding u by (simp add: note_url_def no_allowed_domain_def)
  have i: "uuid4 demo_env = ''0a1b''" "now demo_env = 1700000000"
    by (simp_all add: demo_env_def)
  note t = submit_creates_queued_task [OF job_body_def v w m, of demo_env demo_store,
                                       unfolded u i]
  have o: "out_template ''0a1b'' = ''downloads_v2/0a1b_%(title)s.%(ext)s''"
    by (simp add: out_template_def)
  have q: "\<lparr>status = ''queued'', progress = 0, url = note_url, created = 1700000000,
            filename = None, filepath = None, title = None, error = None\<rparr> = queued_task"
    by (simp add: queued_task_def)
  have n: "''a'' \<noteq> ''0a1b''"
    by simp
  have x: "(case outcome instant_failure of Saved i f \<Rightarrow> ''completed'' | Raised x \<Rightarrow> ''failed'')
             = ''failed''"
    by (simp add: instant_failure_def)
  have a: "resp (api_start_download demo_env demo_store job_body) =
             Json 200 [(''task_id'', JStr ''0a1b'')]"
    using t by blast
  have b: "store (api_start_download demo_env demo_store job_body) =
             demo_store(''0a1b'' \<mapsto> queued_task)"
    using t unfolding q by blast
  have c: "store (api_start_download demo_env demo_store job_body) ''a'' = demo_store ''a''"
    using t n by blast
  have d: "api_status (store (api_start_download demo_env demo_store job_body)) ''0a1b'' =
       Json 200 [(''status'', JStr ''queued''), (''progress'', JNum 0),
                 (''filename'', JNull), (''title'', JNull)]"
    using t by blast
  have f: "effects (api_start_download demo_env demo_store job_body) =
       [StoreInsert ''0a1b'', ThreadStart ''0a1b'' note_url ''downloads_v2/0a1b_%(title)s.%(ext)s'']"
    using t unfolding o by blast
  have g: "\<exists>s' t'. download_background (store (api_start_download demo_env demo_store job_body))
                  ''0a1b'' instant_failure = Inr s'
          \<and> s' ''0a1b'' = Some t' \<and> status t' = ''failed''"
    using t x by metis
  show ?thesis
    using a b c d f g by blast
qed

section \<open>The worker\<close>

text \<open>
  C6. When the collaborator raises, whatever the exception is: the worker returns, and the
  task has status \<open>failed\<close> and the fixed message as its \<open>error\<close>; its file name, file path,
  title, URL and creation time are what they were before the worker ran. The store the
  worker leaves is the same for every exception, so no detail of the exception is in it.
  The status endpoint then answers with the status, the progress, the unchanged file name
  and title, and its own fixed \<open>error\<close> string.
\<close>

theorem worker_failure_is_generic:
  assumes "tasks task_id = Some t" and "outcome run = Raised ex"
  shows "\<exists>s' t'. download_background tasks task_id run = Inr s'
           \<and> s' task_id = Some t'
           \<and> status t' = ''failed'' \<and> error t' = Some TASK_ERROR
           \<and> filename t' = filename t \<and> filepath t' = filepath t \<and> title t' = title t
           \<and> url t' = url t \<and> created t' = created t
           \<and> (\<forall>ex'. download_background tasks task_id (run\<lparr>outcome := Raised ex'\<rparr>) = Inr s')
           \<and> api_status s' task_id =
               Json 200 [(''status'', JStr ''failed''),
                         (''progress'', JNum (of_int (progress t'))),
                         (''filename'', opt_str (filename t)),
                         (''title'', opt_str (title t)),
                         (''error'', JStr STATUS_ERROR)]"
proof -
  let ?s1 = "worker_begin tasks task_id"
  have s1: "?s1 task_id = Some (t\<lparr>status := ''downloading''\<rparr>)"
    using assms(1) by (simp add: worker_begin_def task_update_def)
  obtain p where
    s2: "foldl (\<lambda>s d. update_progress s task_id d) ?s1 (hook_events run) =
           ?s1(task_id \<mapsto> t\<lparr>status := ''downloading'', progress := p\<rparr>)"
    using hooks_at [of ?s1 task_id "t\<lparr>status := ''downloading''\<rparr>" "hook_events run"] s1
    by auto
  let ?t' = "t\<lparr>progress := p, status := ''failed'', error := Some TASK_ERROR\<rparr>"
  let ?s' = "?s1(task_id \<mapsto> ?t')"
  have run: "download_background tasks task_id (run\<lparr>outcome := Raised x\<rparr>) = Inr ?s'" for x
    using assms(1) s2
    by (simp add: download_background_def Let_def worker_end_def task_update_def)
  have "run\<lparr>outcome := Raised ex\<rparr> = run"
    using assms(2) by simp
  then have a: "download_background tasks task_id run = Inr ?s'"
    using run [of ex] by simp
  have b: "api_status ?s' task_id =
             Json 200 [(''status'', JStr ''failed''),
                       (''progress'', JNum (of_int (progress ?t'))),
                       (''filename'', opt_str (filename t)),
                       (''title'', opt_str (title t)),
                       (''error'', JStr STATUS_ERROR)]"
    by (simp add: api_status_def)
  have c: "?s' task_id = Some ?t'"
    by simp
  show ?thesis
    using a b c run by (intro exI [of _ ?s'] exI [of _ ?t']) simp
qed

theorem worker_failure_is_generic_witness:
  "demo_store ''q'' = Some queued_task
   \<and> (\<exists>s' t'. download_background demo_store ''q'' failing_run = Inr s'
          \<and> s' ''q'' = Some t'
          \<and> status t' = ''failed'' \<and> error t' = Some TASK_ERROR
          \<and> api_status s' ''q'' =
              Json 200 [(''status'', JStr ''failed''),
                        (''progress'', JNum (of_int (progress t'))),
                        (''filename'', JNull),
                        (''title'', JNull),
                        (''error'', JStr STATUS_ERROR)])"
proof -
  have q: "demo_store ''q'' = Some queued_task"
    by (simp add: demo_store_def)
  have o: "outcome failing_run =
             Raised (Exc ''[Errno 28] No space left on device: /srv/app/downloads_v2/q.mp4'')"
    by (simp add: failing_run_def)
  have n: "opt_str (filename queued_task) = JNull" "opt_str (title queued_task) = JNull"
    by (simp_all add: queued_task_def opt_str_def)
  show ?thesis
    using worker_failure_is_generic [of demo_store "''q''" queued_task failing_run, OF q o] q
    unfolding n by blast
qed

section \<open>The choice of the best format\<close>

lemma key_gt_iff: "key_gt a b \<longleftrightarrow> \<not> lex_le a b"
  by (cases a; cases b) auto

lemma lex_le_refl: "lex_le a a"
  by (cases a) auto

lemma lex_le_total: "lex_le a b \<or> lex_le b a"
  by (cases a; cases b) auto

lemma lex_le_not: "\<not> lex_le a b \<Longrightarrow> lex_le b a"
  using lex_le_total by blast

lemma all_below_max:
  assumes "\<forall>g \<in> set pre. \<not> lex_le (k m) (k g)"
    and "\<forall>g \<in> set suf. lex_le (k g) (k m)"
    and "x \<in> set (pre @ m # suf)"
  shows "lex_le (k x) (k m)"
proof -
  have "x \<in> set pre \<or> x = m \<or> x \<in> set suf"
    using assms(3) by auto
  then show ?thesis
    using assms(1,2) lex_le_not [of "k m" "k x"] lex_le_refl [of "k m"] by blast
qed

lemma lex_le_trans: "lex_le a b \<Longrightarrow> lex_le b c \<Longrightarrow> lex_le a c"
  by (cases a; cases b; cases c) auto

text \<open>
  \<open>py_max\<close> returns an item of the list; every item before it has a strictly smaller key and
  no item after it has a greater one.
\<close>

lemma py_max_split:
  "\<exists>pre suf. best # xs = pre @ py_max k best xs # suf
     \<and> (\<forall>g \<in> set pre. \<not> lex_le (k (py_max k best xs)) (k g))
     \<and> (\<forall>g \<in> set suf. lex_le (k g) (k (py_max k best xs)))"
proof (induction xs arbitrary: best)
  case Nil
  have "[best] = [] @ py_max k best [] # []" by simp
  then show ?case by fastforce
next
  case (Cons x xs)
  show ?case
  proof (cases "key_gt (k x) (k best)")
    case True
    let ?m = "py_max k x xs"
    have m: "py_max k best (x # xs) = ?m" using True by simp
    obtain pre suf where s: "x # xs = pre @ ?m # suf"
      and lo: "\<forall>g \<in> set pre. \<not> lex_le (k ?m) (k g)"
      and hi: "\<forall>g \<in> set suf. lex_le (k g) (k ?m)"
      using Cons.IH [of x] by blast
    have "x \<in> set (pre @ ?m # suf)" using s by (metis list.set_intros(1))
    then have "lex_le (k x) (k ?m)"
      using lo hi by (rule all_below_max [rotated 2])
    moreover have "\<not> lex_le (k x) (k best)" using True by (simp add: key_gt_iff)
    ultimately have "\<not> lex_le (k ?m) (k best)" using lex_le_trans by blast
    then have "\<forall>g \<in> set (best # pre). \<not> lex_le (k ?m) (k g)" using lo by simp
    moreover have "best # x # xs = (best # pre) @ ?m # suf" using s by simp
    ultimately show ?thesis unfolding m using hi by blast
  next
    case False
    let ?m = "py_max k best xs"
    have m: "py_max k best (x # xs) = ?m" using False by simp
    have x: "lex_le (k x) (k best)" using False by (simp add: key_gt_iff)
    obtain pre suf where s: "best # xs = pre @ ?m # suf"
      and lo: "\<forall>g \<in> set pre. \<not> lex_le (k ?m) (k g)"
      and hi: "\<forall>g \<in> set suf. lex_le (k g) (k ?m)"
      using Cons.IH [of best] by blast
    show ?thesis
    proof (cases pre)
      case Nil
      have e: "best # xs = ?m # suf" using s unfolding Nil append_Nil .
      have b: "?m = best" using e by (metis list.inject)
      have "suf = xs" using e by (metis list.inject)
      then have "best # x # xs = [] @ ?m # (x # suf)" using b by simp
      moreover have "\<forall>g \<in> set (x # suf). lex_le (k g) (k ?m)" using hi x b by simp
      ultimately show ?thesis unfolding m by (metis empty_iff empty_set)
    next
      case (Cons p ps)
      have e: "best # xs = p # ps @ ?m # suf" using s unfolding Cons append_Cons .
      have p: "p = best" using e by (metis list.inject)
      have xs: "xs = ps @ ?m # suf" using e by (metis list.inject)
      have "\<not> lex_le (k ?m) (k best)" using lo Cons p by simp
      then have "\<not> lex_le (k ?m) (k x)" using x lex_le_trans by blast
      then have "\<forall>g \<in> set (best # x # ps). \<not> lex_le (k ?m) (k g)" using lo Cons p by simp
      moreover have "best # x # xs = (best # x # ps) @ ?m # suf" using xs by simp
      ultimately show ?thesis unfolding m using hi by blast
    qed
  qed
qed

lemma fmt_key_spec: "fmt_key f = spec_key f"
  by (cases "height f"; cases "tbr f"; cases "filesize f")
     (simp_all add: fmt_key_def spec_key_def num_or0_def)

text \<open>
  C3. For a descriptor that is not live (the live case is C5). The candidates are
  \<open>requested_formats\<close> when that list is non-empty, else \<open>formats\<close>. When there are candidates,
  the URL returned is that of a candidate \<open>f\<close> whose key (height, bitrate, filesize), a
  missing field counting as 0, is lexicographically greatest among the candidates; \<open>f\<close> is
  the first candidate with that key. When there are none, the top-level URL of the
  descriptor is returned. For the two formats of the specification's example the 720
  entry is chosen; a format with height 1 and nothing else is chosen over formats that
  have no height, whatever their bitrate and size.
\<close>

theorem choose_direct_url_best_format:
  assumes "is_live i \<noteq> Some True"
  shows "(candidates i \<noteq> [] \<longrightarrow>
            (\<exists>pre f suf. candidates i = pre @ f # suf
               \<and> (\<forall>g \<in> set (candidates i). lex_le (spec_key g) (spec_key f))
               \<and> (\<forall>g \<in> set pre. spec_key g \<noteq> spec_key f)
               \<and> choose_direct_url (Some i) = fmt_url f))
       \<and> (candidates i = [] \<longrightarrow> choose_direct_url (Some i) = info_url i)
       \<and> candidates i =
           (case requested_formats i of
              Some (r # rs) \<Rightarrow> r # rs
            | _ \<Rightarrow> (case formats i of Some (f # fs) \<Rightarrow> f # fs | _ \<Rightarrow> []))
       \<and> spec_key f720 = (720, 300, 2000) \<and> spec_key f480 = (480, 500, 1000)
       \<and> choose_direct_url
            (Some \<lparr>is_live = None, requested_formats = None, formats = Some [f480, f720],
                   info_url = None, info_title = None\<rparr>) = fmt_url f720
       \<and> spec_key f_no_height = (0, 9000, 5000) \<and> spec_key f_height_only = (1, 0, 0)
       \<and> spec_key f_bitrate_only = (0, 9000, 0)
       \<and> choose_direct_url (Some sparse_info) = fmt_url f_height_only
       \<and> choose_direct_url
            (Some \<lparr>is_live = None, requested_formats = Some [f_bitrate_only, f_no_height],
                   formats = Some [f720], info_url = None, info_title = None\<rparr>)
           = fmt_url f_no_height"
proof -
  have a: "\<exists>pre f suf. candidates i = pre @ f # suf
             \<and> (\<forall>g \<in> set (candidates i). lex_le (spec_key g) (spec_key f))
             \<and> (\<forall>g \<in> set pre. spec_key g \<noteq> spec_key f)
             \<and> choose_direct_url (Some i) = fmt_url f"
    if ne: "candidates i \<noteq> []"
  proof -
    obtain c cs where c: "candidates i = c # cs"
      using ne by (cases "candidates i") auto
    let ?m = "py_max fmt_key c cs"
    obtain pre suf where s: "c # cs = pre @ ?m # suf"
      and lo: "\<forall>g \<in> set pre. \<not> lex_le (fmt_key ?m) (fmt_key g)"
      and hi: "\<forall>g \<in> set suf. lex_le (fmt_key g) (fmt_key ?m)"
      using py_max_split [of c cs fmt_key] by blast
    have "\<forall>g \<in> set (pre @ ?m # suf). lex_le (fmt_key g) (fmt_key ?m)"
      using all_below_max [OF lo hi] by blast
    then have all: "\<forall>g \<in> set (candidates i). lex_le (spec_key g) (spec_key ?m)"
      using s c by (simp add: fmt_key_spec)
    have first: "\<forall>g \<in> set pre. spec_key g \<noteq> spec_key ?m"
      using lo lex_le_refl unfolding fmt_key_spec by metis
    have "choose_direct_url (Some i) = fmt_url ?m"
      using assms c by (simp add: choose_direct_url_def)
    then show ?thesis using s c all first by metis
  qed
  have b: "choose_direct_url (Some i) = info_url i" if "candidates i = []"
    using assms that by (simp add: choose_direct_url_def)
  have c: "candidates i =
           (case requested_formats i of
              Some (r # rs) \<Rightarrow> r # rs
            | _ \<Rightarrow> (case formats i of Some (f # fs) \<Rightarrow> f # fs | _ \<Rightarrow> []))"
    by (simp add: candidates_def list_truthy_def split: option.splits list.splits)
  have d: "spec_key f720 = (720, 300, 2000)" "spec_key f480 = (480, 500, 1000)"
          "spec_key f_no_height = (0, 9000, 5000)" "spec_key f_height_only = (1, 0, 0)"
          "spec_key f_bitrate_only = (0, 9000, 0)"
    by (simp_all add: spec_key_def f720_def f480_def f_no_height_def f_height_only_def
                      f_bitrate_only_def)
  have e: "choose_direct_url
            (Some \<lparr>is_live = None, requested_formats = None, formats = Some [f480, f720],
                   info_url = None, info_title = None\<rparr>) = fmt_url f720"
    by (simp add: choose_direct_url_def candidates_def list_truthy_def fmt_key_spec d)
  have f: "choose_direct_url (Some sparse_info) = fmt_url f_height_only"
    by (simp add: choose_direct_url_def candidates_def list_truthy_def fmt_key_spec d
                  sparse_info_def)
  have g: "choose_direct_url
            (Some \<lparr>is_live = None, requested_formats = Some [f_bitrate_only, f_no_height],
                   formats = Some [f720], info_url = None, info_title = None\<rparr>)
           = fmt_url f_no_height"
    by (simp add: choose_direct_url_def candidates_def list_truthy_def fmt_key_spec d)
  show ?thesis using a b c d e f g by blast
qed

theorem choose_direct_url_best_format_witness:
  "is_live sparse_info \<noteq> Some True
   \<and> candidates sparse_info = [f_bitrate_only, f_no_height, f_height_only]
   \<and> (\<exists>pre f suf. candidates sparse_info = pre @ f # suf
         \<and> (\<forall>g \<in> set (candidates sparse_info). lex_le (spec_key g) (spec_key f))
         \<and> (\<forall>g \<in> set pre. spec_key g \<noteq> spec_key f)
         \<and> choose_direct_url (Some sparse_info) = fmt_url f)
   \<and> choose_direct_url (Some sparse_info) = Some ''https://cdn.example/tiny.mp4''
   \<and> is_live vod_info \<noteq> Some True
   \<and> candidates vod_info = [f480, f720]
   \<and> choose_direct_url (Some vod_info) = Some ''https://cdn.example/720.mp4''"
proof -
  have l: "is_live sparse_info \<noteq> Some True" "is_live vod_info \<noteq> Some True"
    by (simp_all add: sparse_info_def vod_info_def)
  have c: "candidates sparse_info = [f_bitrate_only, f_no_height, f_height_only]"
          "candidates vod_info = [f480, f720]"
    by (simp_all add: sparse_info_def vod_info_def candidates_def list_truthy_def)
  have n: "candidates sparse_info \<noteq> []" "candidates vod_info \<noteq> []"
    using c by simp_all
  have u: "fmt_url f_height_only = Some ''https://cdn.example/tiny.mp4''"
          "fmt_url f720 = Some ''https://cdn.example/720.mp4''"
    by (simp_all add: f_height_only_def f720_def)
  have v: "vod_info = \<lparr>is_live = None, requested_formats = None, formats = Some [f480, f720],
                        info_url = None, info_title = Some ''clip''\<rparr>"
    by (simp add: vod_info_def)
  note main = choose_direct_url_best_format [OF l(1)]
  have a: "\<exists>pre f suf. candidates sparse_info = pre @ f # suf
         \<and> (\<forall>g \<in> set (candidates sparse_info). lex_le (spec_key g) (spec_key f))
         \<and> (\<forall>g \<in> set pre. spec_key g \<noteq> spec_key f)
         \<and> choose_direct_url (Some sparse_info) = fmt_url f"
    using main n(1) by blast
  have b: "choose_direct_url (Some sparse_info) = Some ''https://cdn.example/tiny.mp4''"
    using main u(1) by simp
  obtain pre f suf where p: "candidates vod_info = pre @ f # suf"
    and q: "\<forall>g \<in> set (candidates vod_info). lex_le (spec_key g) (spec_key f)"
    and r: "choose_direct_url (Some vod_info) = fmt_url f"
    using choose_direct_url_best_format [OF l(2)] n(2) by blast
  have k: "spec_key f720 = (720, 300, 2000)" "spec_key f480 = (480, 500, 1000)"
    using main by simp_all
  have "f \<in> set [f480, f720]"
    using p c(2) by (metis in_set_conv_decomp)
  moreover have "lex_le (spec_key f720) (spec_key f)"
    using q c(2) by simp
  ultimately have "f = f720"
    using k by auto
  then have d: "choose_direct_url (Some vod_info) = Some ''https://cdn.example/720.mp4''"
    using r u(2) by simp
  show ?thesis
    using l c a b d by blast
qed

section \<open>The progress reporter\<close>

lemma pct_of_clamp:
  "pct_of a b = clamp 0 100 \<lfloor>py_mul100 (py_truediv a b)\<rfloor>"
proof -
  let ?x = "py_mul100 (py_truediv a b)"
  consider "?x < 0" | "0 \<le> ?x" "?x < 100" | "100 \<le> ?x" by linarith
  then show ?thesis
  proof cases
    case 1
    then have "\<lfloor>?x\<rfloor> < 0" by (simp add: floor_less_iff)
    then show ?thesis using 1 by (simp add: pct_of_def py_int_def clamp_def)
  next
    case 2
    then have "0 \<le> \<lfloor>?x\<rfloor>" "\<lfloor>?x\<rfloor> < 100" by (simp_all add: floor_less_iff)
    then show ?thesis using 2 by (simp add: pct_of_def py_int_def clamp_def)
  next
    case 3
    then have "100 \<le> \<lfloor>?x\<rfloor>" by (simp add: le_floor_iff)
    then show ?thesis using 3 by (simp add: pct_of_def py_int_def clamp_def)
  qed
qed

lemma pct_of_range: "0 \<le> pct_of a b \<and> pct_of a b \<le> 100"
  by (simp add: pct_of_clamp clamp_def)

lemma pct_29_of_100: "pct_of (PyInt 29) (PyInt 100) = 28"
  by code_simp

lemma pct_50_of_est_100: "pct_of (PyInt 50) (PyFloat 100) = 50"
  by code_simp

lemma pct_60_of_est_300: "pct_of (PyInt 60) (PyFloat 300) = 20"
  by code_simp

lemma update_progress_unknown:
  "tasks task_id = None \<Longrightarrow> update_progress tasks task_id d = tasks"
  by (simp add: update_progress_def)

lemma update_progress_applied:
  assumes "tasks task_id = Some t" and "ev_status d = Some ''downloading''"
    and "num_val (event_total d) \<noteq> 0"
  shows "update_progress tasks task_id d =
           tasks(task_id \<mapsto> t\<lparr>progress := pct_of (or_zero (downloaded_bytes d)) (event_total d)\<rparr>)"
  using assms by (simp add: update_progress_def Let_def)

lemma update_progress_retained:
  assumes "tasks task_id = Some t"
    and "ev_status d \<noteq> Some ''downloading'' \<or> num_val (event_total d) = 0"
  shows "update_progress tasks task_id d = tasks"
proof -
  have "tasks(task_id \<mapsto> t\<lparr>progress := progress t\<rparr>) = tasks"
    using assms(1) by (simp add: map_upd_triv)
  then show ?thesis
    using assms by (auto simp: update_progress_def Let_def)
qed

lemma event_total_cases:
  "event_total d =
     (if num_truthy (total_bytes d) then the (total_bytes d)
      else if num_truthy (total_bytes_estimate d) then the (total_bytes_estimate d)
      else PyInt 0)"
  by (simp add: event_total_def or_num_def or_zero_def)

lemma event_total_nonzero:
  "num_val (event_total d) \<noteq> 0 \<longleftrightarrow>
     num_truthy (total_bytes d) \<or> num_truthy (total_bytes_estimate d)"
proof -
  have "num_truthy v \<Longrightarrow> num_val (the v) \<noteq> 0" for v
    by (cases v) auto
  then show ?thesis
    by (auto simp: event_total_cases)
qed

section \<open>Rounding to binary64 is monotone\<close>

lemma pow2_power_int: "pow2 k = power_int 2 k"
proof (cases "0 \<le> k")
  case True
  then show ?thesis by (simp add: pow2_def power_int_def)
next
  case False
  have "inverse (2 :: rat) ^ nat (- k) = 1 / 2 ^ nat (- k)"
    by (simp only: inverse_eq_divide power_one_over)
  then show ?thesis using False by (simp only: pow2_def power_int_def if_False)
qed

lemma pow2_pos: "0 < pow2 k"
  by (simp add: pow2_power_int)

lemma pow2_mono: "a \<le> b \<Longrightarrow> pow2 a \<le> pow2 b"
  by (simp add: pow2_power_int power_int_increasing)

lemma pow2_less_exp: "pow2 a < pow2 b \<Longrightarrow> a < b"
proof (rule ccontr)
  assume "pow2 a < pow2 b" and "\<not> a < b"
  then have "pow2 b \<le> pow2 a" by (simp add: pow2_mono)
  with \<open>pow2 a < pow2 b\<close> show False by simp
qed

lemma pow2_split: "pow2 e = pow2 (e - 52) * 2 ^ 52"
proof -
  have "pow2 e = power_int 2 ((e - 52) + 52)" by (simp add: pow2_power_int)
  also have "\<dots> = power_int 2 (e - 52) * power_int (2 :: rat) 52"
    by (subst power_int_add) simp_all
  finally show ?thesis by (simp add: pow2_power_int)
qed

lemma pow2_Suc: "pow2 (e + 1) = pow2 e * 2"
proof -
  have "power_int (2 :: rat) (e + 1) = power_int 2 e * power_int 2 1"
    by (subst power_int_add) simp_all
  then show ?thesis by (simp add: pow2_power_int)
qed

lemma pow2_neg: "pow2 (- k) = 1 / pow2 k"
  by (simp add: pow2_power_int power_int_minus_divide)

lemma pow2_nat: "pow2 (int n) = 2 ^ n"
  by (simp add: pow2_def)

text \<open>For a natural number \<open>n \<ge> 1\<close>, \<open>floorlog 2 n - 1\<close> is the position of its leading bit.\<close>

lemma leading_bit:
  assumes "1 \<le> y"
  shows "pow2 (int (floorlog 2 (nat \<lfloor>y\<rfloor>)) - 1) \<le> y
       \<and> y < pow2 (int (floorlog 2 (nat \<lfloor>y\<rfloor>)))
       \<and> 0 \<le> int (floorlog 2 (nat \<lfloor>y\<rfloor>)) - 1"
proof -
  let ?n = "nat \<lfloor>y\<rfloor>"
  let ?L = "floorlog 2 ?n"
  have f: "1 \<le> \<lfloor>y\<rfloor>" using assms by (simp add: le_floor_iff)
  then have n: "0 < ?n" by simp
  have b: "2 ^ (?L - 1) \<le> ?n \<and> ?n < 2 ^ ?L"
    using floorlog_bounds [of ?n 2] n by simp
  have L: "1 \<le> ?L"
    using n by (simp add: floorlog_def)
  then have e: "int ?L - 1 = int (?L - 1)" by simp
  have "(2 :: rat) ^ (?L - 1) \<le> of_nat ?n"
    using b by (metis of_nat_le_iff of_nat_numeral of_nat_power)
  moreover have "(of_nat ?n :: rat) = of_int \<lfloor>y\<rfloor>"
    using f by simp
  moreover have "of_int \<lfloor>y\<rfloor> \<le> y" by simp
  ultimately have lo: "pow2 (int ?L - 1) \<le> y"
    unfolding e pow2_nat by linarith
  have "\<lfloor>y\<rfloor> = int ?n" using f by simp
  moreover have "int ?n < 2 ^ ?L"
    using b by (metis of_nat_less_iff of_nat_numeral of_nat_power)
  ultimately have "\<lfloor>y\<rfloor> < 2 ^ ?L" by simp
  then have "\<lfloor>y\<rfloor> < \<lfloor>(2 :: rat) ^ ?L\<rfloor>" by simp
  then have "y < 2 ^ ?L"
    using floor_less_cancel by blast
  then have hi: "y < pow2 (int ?L)" by (simp add: pow2_nat)
  show ?thesis using lo hi L by simp
qed

lemma ilog2_bounds:
  assumes "0 < x"
  shows "pow2 (ilog2 x) \<le> x \<and> x < pow2 (ilog2 x + 1)"
proof (cases "1 \<le> x")
  case True
  then show ?thesis
    using leading_bit [of x] by (simp add: ilog2_def)
next
  case False
  let ?y = "1 / x"
  let ?k = "int (floorlog 2 (nat \<lfloor>?y\<rfloor>)) - 1"
  have y: "1 \<le> ?y" using False assms by simp
  have lo: "pow2 ?k \<le> ?y" and hi: "?y < pow2 (?k + 1)"
    using leading_bit [OF y] by simp_all
  have x: "x = 1 / ?y" by simp
  show ?thesis
  proof (cases "pow2 ?k = ?y")
    case True
    then have e: "ilog2 x = - ?k" using False by (simp add: ilog2_def Let_def)
    have "pow2 (- ?k) = 1 / pow2 ?k" by (rule pow2_neg)
    then have p: "pow2 (- ?k) = x" unfolding True by simp
    have "pow2 (- ?k + 1) = pow2 (- ?k) * 2" by (rule pow2_Suc)
    then have "pow2 (- ?k + 1) = x * 2" unfolding p .
    then show ?thesis unfolding e using p assms by simp
  next
    case ne: False
    then have e: "ilog2 x = - (?k + 1)" using False by (simp add: ilog2_def Let_def)
    have "pow2 ?k < ?y" using lo ne by simp
    then have "x < 1 / pow2 ?k"
      using assms pow2_pos [of ?k] by (simp add: field_simps)
    then have "x < pow2 (- ?k)" unfolding pow2_neg .
    moreover have "- (?k + 1) + 1 = - ?k" by simp
    ultimately have a: "x < pow2 (- (?k + 1) + 1)" by (simp only:)
    have "1 / pow2 (?k + 1) < x"
      using hi assms pow2_pos [of "?k + 1"] by (simp add: field_simps)
    then have "pow2 (- (?k + 1)) < x" unfolding pow2_neg .
    then have b: "pow2 (- (?k + 1)) \<le> x" by (rule less_imp_le)
    show ?thesis unfolding e using a b by (rule conjI [rotated])
  qed
qed

lemma ilog2_mono:
  assumes "0 < x" and "x \<le> y"
  shows "ilog2 x \<le> ilog2 y"
proof -
  have "pow2 (ilog2 x) \<le> x" using ilog2_bounds [OF assms(1)] by simp
  moreover have "y < pow2 (ilog2 y + 1)" using ilog2_bounds [of y] assms by simp
  ultimately have "pow2 (ilog2 x) < pow2 (ilog2 y + 1)" using assms(2) by linarith
  then have "ilog2 x < ilog2 y + 1" by (rule pow2_less_exp)
  then show ?thesis by simp
qed

lemma round_half_even_int: "round_half_even (of_int n) = n"
  by (simp add: round_half_even_def)

lemma round_half_even_mono:
  assumes "x \<le> y"
  shows "round_half_even x \<le> round_half_even y"
proof (cases "\<lfloor>x\<rfloor> = \<lfloor>y\<rfloor>")
  case True
  then show ?thesis
    using assms by (auto simp: round_half_even_def Let_def)
next
  case False
  then have "\<lfloor>x\<rfloor> < \<lfloor>y\<rfloor>"
    using assms floor_mono [of x y] by simp
  moreover have "round_half_even x \<le> \<lfloor>x\<rfloor> + 1"
    by (simp add: round_half_even_def Let_def)
  moreover have "\<lfloor>y\<rfloor> \<le> round_half_even y"
    by (simp add: round_half_even_def Let_def)
  ultimately show ?thesis by linarith
qed

lemma fl_pos:
  assumes "0 < x"
  shows "fl x = of_int (round_half_even (x / pow2 (ilog2 x - 52))) * pow2 (ilog2 x - 52)"
  using assms by (simp add: fl_def Let_def)

lemma fl_binade:
  assumes "0 < x"
  shows "pow2 (ilog2 x) \<le> fl x \<and> fl x \<le> pow2 (ilog2 x + 1)"
proof -
  let ?e = "ilog2 x"
  let ?u = "pow2 (?e - 52)"
  have u: "0 < ?u" by (rule pow2_pos)
  have b: "pow2 ?e \<le> x" "x < pow2 (?e + 1)"
    using ilog2_bounds [OF assms] by simp_all
  have "of_int (2 ^ 52) * ?u \<le> x"
    using b(1) pow2_split [of ?e] by (simp add: mult.commute)
  then have "of_int (2 ^ 52) \<le> x / ?u"
    using u by (simp add: pos_le_divide_eq)
  then have "round_half_even (of_int (2 ^ 52)) \<le> round_half_even (x / ?u)"
    by (rule round_half_even_mono)
  then have "2 ^ 52 \<le> round_half_even (x / ?u)"
    unfolding round_half_even_int .
  then have "(of_int (2 ^ 52) :: rat) \<le> of_int (round_half_even (x / ?u))"
    by (simp only: of_int_le_iff)
  then have "of_int (2 ^ 52) * ?u \<le> of_int (round_half_even (x / ?u)) * ?u"
    using u by (simp add: mult_le_cancel_right)
  then have lo: "pow2 ?e \<le> fl x"
    using pow2_split [of ?e] by (simp add: fl_pos [OF assms] mult.commute)
  have "x \<le> of_int (2 ^ 53) * ?u"
    using b(2) pow2_split [of ?e] by (simp add: pow2_Suc mult.commute)
  then have "x / ?u \<le> of_int (2 ^ 53)"
    using u by (simp add: pos_divide_le_eq)
  then have "round_half_even (x / ?u) \<le> round_half_even (of_int (2 ^ 53))"
    by (rule round_half_even_mono)
  then have "round_half_even (x / ?u) \<le> 2 ^ 53"
    unfolding round_half_even_int .
  then have "(of_int (round_half_even (x / ?u)) :: rat) \<le> of_int (2 ^ 53)"
    by (simp only: of_int_le_iff)
  then have "of_int (round_half_even (x / ?u)) * ?u \<le> of_int (2 ^ 53) * ?u"
    using u by (simp add: mult_le_cancel_right)
  then have hi: "fl x \<le> pow2 (?e + 1)"
    using pow2_split [of ?e] by (simp add: fl_pos [OF assms] pow2_Suc mult.commute)
  show ?thesis using lo hi by simp
qed

lemma fl_mono_pos:
  assumes "0 < x" and "x \<le> y"
  shows "fl x \<le> fl y"
proof (cases "ilog2 x = ilog2 y")
  case True
  let ?u = "pow2 (ilog2 y - 52)"
  have u: "0 < ?u" by (rule pow2_pos)
  have "x / ?u \<le> y / ?u"
    using assms(2) u by (simp add: divide_right_mono)
  then have "round_half_even (x / ?u) \<le> round_half_even (y / ?u)"
    by (rule round_half_even_mono)
  then have "(of_int (round_half_even (x / ?u)) :: rat) \<le> of_int (round_half_even (y / ?u))"
    by (simp only: of_int_le_iff)
  then have "of_int (round_half_even (x / ?u)) * ?u \<le> of_int (round_half_even (y / ?u)) * ?u"
    using u by (simp add: mult_le_cancel_right)
  then show ?thesis
    using assms True by (simp add: fl_pos)
next
  case False
  have y: "0 < y" using assms by simp
  have "ilog2 x \<le> ilog2 y" using assms by (rule ilog2_mono)
  then have "ilog2 x + 1 \<le> ilog2 y" using False by simp
  then have "pow2 (ilog2 x + 1) \<le> pow2 (ilog2 y)" by (rule pow2_mono)
  moreover have "fl x \<le> pow2 (ilog2 x + 1)" using fl_binade [OF assms(1)] by simp
  moreover have "pow2 (ilog2 y) \<le> fl y" using fl_binade [OF y] by simp
  ultimately show ?thesis by linarith
qed

lemma fl_nonneg: "0 \<le> x \<Longrightarrow> 0 \<le> fl x"
proof (cases "x = 0")
  case True
  then show ?thesis by (simp add: fl_def)
next
  case False
  assume "0 \<le> x"
  then have "0 < x" using False by simp
  then have "pow2 (ilog2 x) \<le> fl x" using fl_binade by simp
  then show ?thesis using pow2_pos [of "ilog2 x"] by linarith
qed

lemma fl_mono:
  assumes "0 \<le> x" and "x \<le> y"
  shows "fl x \<le> fl y"
proof (cases "x = 0")
  case True
  then show ?thesis using assms fl_nonneg [of y] by (simp add: fl_def)
next
  case False
  then have "0 < x" using assms(1) by simp
  then show ?thesis using assms(2) by (rule fl_mono_pos)
qed

text \<open>
  With the total fixed and positive, more downloaded bytes never give a smaller
  percentage: rounding the quotient and the product keeps the order.
\<close>

lemma py_truediv_mono:
  assumes "0 \<le> a" and "a \<le> a'" and "0 < num_val tot"
  shows "0 \<le> py_truediv (PyInt a) tot \<and> py_truediv (PyInt a) tot \<le> py_truediv (PyInt a') tot"
proof (cases tot)
  case (PyInt b)
  then have b: "0 < (of_int b :: rat)" using assms(3) by simp
  have "0 \<le> (of_int a :: rat) / of_int b"
    using assms(1) b by simp
  moreover have "(of_int a :: rat) / of_int b \<le> of_int a' / of_int b"
    using assms(2) b by (simp add: divide_right_mono)
  ultimately show ?thesis
    using PyInt fl_mono fl_nonneg by simp
next
  case (PyFloat r)
  then have r: "0 < r" using assms(3) by simp
  have "0 \<le> fl (of_int a)" using assms(1) by (simp add: fl_nonneg)
  moreover have "fl (of_int a) \<le> fl (of_int a')"
    using assms(1,2) by (simp add: fl_mono)
  ultimately have "0 \<le> fl (of_int a) / r" and "fl (of_int a) / r \<le> fl (of_int a') / r"
    using r by (simp_all add: divide_right_mono)
  then show ?thesis
    using PyFloat fl_mono fl_nonneg by simp
qed

lemma pct_of_mono:
  assumes "0 \<le> a" and "a \<le> a'" and "0 < num_val tot"
  shows "pct_of (PyInt a) tot \<le> pct_of (PyInt a') tot"
proof -
  let ?q = "py_truediv (PyInt a) tot" and ?q' = "py_truediv (PyInt a') tot"
  have q: "0 \<le> ?q" "?q \<le> ?q'"
    using py_truediv_mono [OF assms] by simp_all
  then have "0 \<le> ?q * 100" and "?q * 100 \<le> ?q' * 100" by simp_all
  then have "py_mul100 ?q \<le> py_mul100 ?q'"
    unfolding py_mul100_def by (rule fl_mono)
  then have "\<lfloor>py_mul100 ?q\<rfloor> \<le> \<lfloor>py_mul100 ?q'\<rfloor>"
    by (rule floor_mono)
  then show ?thesis
    by (simp add: pct_of_clamp clamp_def)
qed

section \<open>How far the float percentage is from the exact one\<close>

lemma round_half_even_err: "\<bar>of_int (round_half_even z) - z\<bar> \<le> (1 / 2 :: rat)"
proof -
  have "of_int \<lfloor>z\<rfloor> \<le> z" and "z < of_int \<lfloor>z\<rfloor> + 1"
    by linarith+
  then show ?thesis
    by (auto simp: round_half_even_def Let_def)
qed

lemma fl_err_pos:
  assumes "0 < x"
  shows "\<bar>fl x - x\<bar> \<le> x / 2 ^ 53"
proof -
  let ?u = "pow2 (ilog2 x - 52)"
  let ?m = "of_int (round_half_even (x / ?u)) :: rat"
  have u: "0 < ?u" by (rule pow2_pos)
  have "fl x - x = (?m - x / ?u) * ?u"
    using u by (simp add: fl_pos [OF assms] left_diff_distrib)
  then have "\<bar>fl x - x\<bar> = \<bar>?m - x / ?u\<bar> * ?u"
    using u by (simp add: abs_mult)
  also have "\<dots> \<le> (1 / 2) * ?u"
    using round_half_even_err [of "x / ?u"] u by (simp add: mult_right_mono)
  finally have a: "\<bar>fl x - x\<bar> \<le> ?u / 2" by simp
  have "?u * 2 ^ 52 \<le> x"
    using ilog2_bounds [OF assms] pow2_split [of "ilog2 x"] by simp
  then have "?u / 2 \<le> x / 2 ^ 53"
    by simp
  then show ?thesis using a by linarith
qed

lemma fl_err:
  assumes "0 \<le> x"
  shows "x * (1 - 1 / 2 ^ 53) \<le> fl x \<and> fl x \<le> x * (1 + 1 / 2 ^ 53)"
proof (cases "x = 0")
  case True
  then show ?thesis by (simp add: fl_def)
next
  case False
  then have "0 < x" using assms by simp
  define e where "e = x / 2 ^ 53"
  have "\<bar>fl x - x\<bar> \<le> e"
    unfolding e_def using \<open>0 < x\<close> by (rule fl_err_pos)
  moreover have "x * (1 - 1 / 2 ^ 53) = x - e" and "x * (1 + 1 / 2 ^ 53) = x + e"
    unfolding e_def by (simp_all add: algebra_simps)
  ultimately show ?thesis by (simp only: abs_le_iff) linarith
qed

lemma to_float_err:
  assumes "0 \<le> num_val n"
  shows "num_val n * (1 - 1 / 2 ^ 53) \<le> to_float n \<and> to_float n \<le> num_val n * (1 + 1 / 2 ^ 53)"
proof (cases n)
  case (PyInt i)
  then show ?thesis using assms fl_err [of "of_int i"] by simp
next
  case (PyFloat r)
  then have "0 \<le> r" using assms by simp
  then have "r * (1 - 1 / 2 ^ 53) \<le> r * 1" and "r * 1 \<le> r * (1 + 1 / 2 ^ 53)"
    by (intro mult_left_mono; simp)+
  then show ?thesis using PyFloat by simp
qed

text \<open>
  Each rounding changes a value by at most one part in \<open>2 ^ 53\<close>. The quotient of the code is
  therefore within one part in \<open>2 ^ 50\<close> of the exact quotient, whichever of its operands are
  ints and floats, and the product with 100 within one part in \<open>2 ^ 49\<close> of the exact
  percentage.
\<close>

lemma quotient_err:
  fixes va vb A B :: rat
  assumes a: "0 \<le> va" "va * (1 - 1 / 2 ^ 53) \<le> A" "A \<le> va * (1 + 1 / 2 ^ 53)"
    and b: "0 < vb" "vb * (1 - 1 / 2 ^ 53) \<le> B" "B \<le> vb * (1 + 1 / 2 ^ 53)"
  shows "va / vb * (1 - 1 / 2 ^ 51) \<le> A / B \<and> A / B \<le> va / vb * (1 + 1 / 2 ^ 51)
         \<and> 0 \<le> A / B"
proof -
  have lo: "0 < vb * (1 - 1 / 2 ^ 53)"
    using b(1) by simp
  then have B: "0 < B" using b(2) by linarith
  have A: "0 \<le> A"
  proof -
    have "0 \<le> va * (1 - 1 / 2 ^ 53)" using a(1) by simp
    then show ?thesis using a(2) by linarith
  qed
  have "0 \<le> va * (1 + 1 / 2 ^ 53)" using a(1) by simp
  then have "A / B \<le> (va * (1 + 1 / 2 ^ 53)) / (vb * (1 - 1 / 2 ^ 53))"
    using a(3) lo b(2) by (rule frac_le)
  also have "\<dots> = va / vb * ((1 + 1 / 2 ^ 53) / (1 - 1 / 2 ^ 53))"
    by simp
  also have "\<dots> \<le> va / vb * (1 + 1 / 2 ^ 51)"
  proof -
    have "(1 + 1 / 2 ^ 53) / (1 - 1 / 2 ^ 53) \<le> (1 + 1 / 2 ^ 51 :: rat)"
      by simp
    moreover have "0 \<le> va / vb" using a(1) b(1) by simp
    ultimately show ?thesis by (rule mult_left_mono)
  qed
  finally have up: "A / B \<le> va / vb * (1 + 1 / 2 ^ 51)" .
  have hi: "0 < vb * (1 + 1 / 2 ^ 53)"
    using b(1) by simp
  have "(va * (1 - 1 / 2 ^ 53)) / (vb * (1 + 1 / 2 ^ 53)) \<le> A / B"
    using A a(2) B b(3) by (rule frac_le)
  moreover have "(va * (1 - 1 / 2 ^ 53)) / (vb * (1 + 1 / 2 ^ 53))
                   = va / vb * ((1 - 1 / 2 ^ 53) / (1 + 1 / 2 ^ 53))"
    by simp
  moreover have "va / vb * (1 - 1 / 2 ^ 51) \<le> va / vb * ((1 - 1 / 2 ^ 53) / (1 + 1 / 2 ^ 53))"
  proof -
    have "(1 - 1 / 2 ^ 51 :: rat) \<le> (1 - 1 / 2 ^ 53) / (1 + 1 / 2 ^ 53)"
      by simp
    moreover have "0 \<le> va / vb" using a(1) b(1) by simp
    ultimately show ?thesis by (rule mult_left_mono)
  qed
  ultimately have dn: "va / vb * (1 - 1 / 2 ^ 51) \<le> A / B" by linarith
  have "0 \<le> A / B" using A B by simp
  then show ?thesis using up dn by simp
qed

lemma py_truediv_err:
  assumes "0 \<le> num_val d" and "0 < num_val t"
  shows "num_val d / num_val t * (1 - 1 / 2 ^ 50) \<le> py_truediv d t
       \<and> py_truediv d t \<le> num_val d / num_val t * (1 + 1 / 2 ^ 50)
       \<and> 0 \<le> py_truediv d t"
proof -
  let ?r = "num_val d / num_val t"
  have r: "0 \<le> ?r" using assms by simp
  have step: "?r * (1 - 1 / 2 ^ 50) \<le> fl q \<and> fl q \<le> ?r * (1 + 1 / 2 ^ 50) \<and> 0 \<le> fl q"
    if q: "?r * (1 - 1 / 2 ^ 51) \<le> q" "q \<le> ?r * (1 + 1 / 2 ^ 51)" "0 \<le> q" for q
  proof -
    have f: "q * (1 - 1 / 2 ^ 53) \<le> fl q" "fl q \<le> q * (1 + 1 / 2 ^ 53)"
      using fl_err [OF q(3)] by simp_all
    have "?r * (1 - 1 / 2 ^ 51) * (1 - 1 / 2 ^ 53) \<le> q * (1 - 1 / 2 ^ 53)"
      using q(1) by (simp add: mult_right_mono)
    moreover have "?r * (1 - 1 / 2 ^ 50) \<le> ?r * ((1 - 1 / 2 ^ 51) * (1 - 1 / 2 ^ 53))"
      using r by (intro mult_left_mono) simp_all
    ultimately have lo: "?r * (1 - 1 / 2 ^ 50) \<le> fl q"
      using f(1) by (simp add: mult.assoc)
    have "q * (1 + 1 / 2 ^ 53) \<le> ?r * (1 + 1 / 2 ^ 51) * (1 + 1 / 2 ^ 53)"
      using q(2) by (simp add: mult_right_mono)
    moreover have "?r * ((1 + 1 / 2 ^ 51) * (1 + 1 / 2 ^ 53)) \<le> ?r * (1 + 1 / 2 ^ 50)"
      using r by (intro mult_left_mono) simp_all
    ultimately have hi: "fl q \<le> ?r * (1 + 1 / 2 ^ 50)"
      using f(2) by (simp add: mult.assoc)
    show ?thesis using lo hi fl_nonneg [OF q(3)] by simp
  qed
  have exact: "?r * (1 - 1 / 2 ^ 51) \<le> ?r \<and> ?r \<le> ?r * (1 + 1 / 2 ^ 51)"
  proof -
    have "?r * (1 - 1 / 2 ^ 51) \<le> ?r * 1" and "?r * 1 \<le> ?r * (1 + 1 / 2 ^ 51)"
      using r by (intro mult_left_mono; simp)+
    then show ?thesis by simp
  qed
  have mixed: "?r * (1 - 1 / 2 ^ 51) \<le> to_float d / to_float t
               \<and> to_float d / to_float t \<le> ?r * (1 + 1 / 2 ^ 51)
               \<and> 0 \<le> to_float d / to_float t"
    using quotient_err [of "num_val d" "to_float d" "num_val t" "to_float t"]
          to_float_err [OF assms(1)] to_float_err [of t] assms
    by simp
  show ?thesis
  proof (cases d)
    case di: (PyInt a)
    show ?thesis
    proof (cases t)
      case (PyInt b)
      then show ?thesis using di step [of ?r] exact r by simp
    next
      case (PyFloat b)
      then have "py_truediv d t = fl (to_float d / to_float t)" using di by simp
      then show ?thesis using step [of "to_float d / to_float t"] mixed by simp
    qed
  next
    case (PyFloat a)
    then have "py_truediv d t = fl (to_float d / to_float t)" by simp
    then show ?thesis using step [of "to_float d / to_float t"] mixed by simp
  qed
qed

lemma float_percentage_err:
  assumes "0 \<le> num_val d" and "0 < num_val t"
  shows "num_val d / num_val t * 100 * (1 - 1 / 2 ^ 49) \<le> py_mul100 (py_truediv d t)
       \<and> py_mul100 (py_truediv d t) \<le> num_val d / num_val t * 100 * (1 + 1 / 2 ^ 49)"
proof -
  let ?y = "num_val d / num_val t * 100"
  let ?q = "py_truediv d t"
  have y: "0 \<le> ?y" using assms by simp
  have q: "num_val d / num_val t * (1 - 1 / 2 ^ 50) \<le> ?q"
          "?q \<le> num_val d / num_val t * (1 + 1 / 2 ^ 50)" "0 \<le> ?q"
    using py_truediv_err [OF assms] by simp_all
  have q100: "0 \<le> ?q * 100" using q(3) by simp
  have f: "?q * 100 * (1 - 1 / 2 ^ 53) \<le> py_mul100 ?q"
          "py_mul100 ?q \<le> ?q * 100 * (1 + 1 / 2 ^ 53)"
    using fl_err [OF q100] by (simp_all add: py_mul100_def)
  have "?y * (1 - 1 / 2 ^ 50) * (1 - 1 / 2 ^ 53) \<le> ?q * 100 * (1 - 1 / 2 ^ 53)"
    using q(1) by (simp add: mult_right_mono)
  moreover have "?y * (1 - 1 / 2 ^ 49) \<le> ?y * ((1 - 1 / 2 ^ 50) * (1 - 1 / 2 ^ 53))"
    using y by (intro mult_left_mono) simp_all
  ultimately have lo: "?y * (1 - 1 / 2 ^ 49) \<le> py_mul100 ?q"
    using f(1) by (simp add: mult.assoc)
  have "?q * 100 * (1 + 1 / 2 ^ 53) \<le> ?y * (1 + 1 / 2 ^ 50) * (1 + 1 / 2 ^ 53)"
    using q(2) by (simp add: mult_right_mono)
  moreover have "?y * ((1 + 1 / 2 ^ 50) * (1 + 1 / 2 ^ 53)) \<le> ?y * (1 + 1 / 2 ^ 49)"
    using y by (intro mult_left_mono) simp_all
  ultimately have hi: "py_mul100 ?q \<le> ?y * (1 + 1 / 2 ^ 49)"
    using f(2) by (simp add: mult.assoc)
  show ?thesis using lo hi by simp
qed
lemma clamp_mono: "x \<le> y \<Longrightarrow> clamp 0 100 x \<le> clamp 0 100 y"
  by (simp add: clamp_def)

lemma pct_of_near_exact:
  assumes "0 \<le> num_val d" and "0 < num_val t"
  shows "\<bar>pct_of d t - clamp 0 100 \<lfloor>num_val d / num_val t * 100\<rfloor>\<bar> \<le> 1"
proof -
  define y where "y = num_val d / num_val t * 100"
  define x where "x = py_mul100 (py_truediv d t)"
  define e where "e = y / 2 ^ 49"
  have y: "0 \<le> y" unfolding y_def using assms by simp
  have e: "0 \<le> e" unfolding e_def using y by simp
  have "y * (1 - 1 / 2 ^ 49) = y - e" and "y * (1 + 1 / 2 ^ 49) = y + e"
    unfolding e_def by (simp_all add: algebra_simps)
  then have b: "y - e \<le> x" "x \<le> y + e"
    using float_percentage_err [OF assms] unfolding y_def x_def by simp_all
  have p: "pct_of d t = clamp 0 100 \<lfloor>x\<rfloor>"
    unfolding x_def by (rule pct_of_clamp)
  show ?thesis
  proof (cases "y < 101")
    case True
    then have "e < 1" unfolding e_def by simp
    then have "y - 1 \<le> x" and "x \<le> y + 1" using b by linarith+
    then have "\<lfloor>y - 1\<rfloor> \<le> \<lfloor>x\<rfloor>" and "\<lfloor>x\<rfloor> \<le> \<lfloor>y + 1\<rfloor>"
      by (simp_all only: floor_mono)
    then have "\<lfloor>y\<rfloor> - 1 \<le> \<lfloor>x\<rfloor>" and "\<lfloor>x\<rfloor> \<le> \<lfloor>y\<rfloor> + 1"
      by simp_all
    then show ?thesis
      unfolding p y_def [symmetric] by (simp add: clamp_def)
  next
    case False
    then have y101: "101 \<le> y" by simp
    have "e \<le> y / 101"
      unfolding e_def using y by (simp add: frac_le)
    then have "100 \<le> y - e" using y101 by simp
    then have "100 \<le> x" using b(1) by linarith
    then have "100 \<le> \<lfloor>x\<rfloor>" by (simp add: le_floor_iff)
    moreover have "100 \<le> \<lfloor>y\<rfloor>" using y101 by (simp add: le_floor_iff)
    ultimately show ?thesis
      unfolding p y_def [symmetric] by (simp add: clamp_def)
  qed
qed

text \<open>
  For integer byte counts the exact percentage is a fraction with denominator \<open>b\<close>, so when
  it is below an integer it is below by at least \<open>1 / b\<close>; with \<open>b \<le> 2 ^ 40\<close> the rounding cannot
  carry the float percentage over that integer.
\<close>

lemma pct_of_int_le_exact:
  assumes "0 \<le> a" and "0 < b" and "b \<le> 2 ^ 40"
  shows "pct_of (PyInt a) (PyInt b) \<le> clamp 0 100 \<lfloor>(of_int a :: rat) / of_int b * 100\<rfloor>"
proof -
  define y :: rat where "y = of_int a / of_int b * 100"
  define x where "x = py_mul100 (py_truediv (PyInt a) (PyInt b))"
  define e where "e = y / 2 ^ 49"
  define n where "n = \<lfloor>y\<rfloor>"
  have bq: "0 < (of_int b :: rat)" using assms(2) by simp
  have y: "0 \<le> y" unfolding y_def using assms by simp
  have "y * (1 + 1 / 2 ^ 49) = y + e"
    unfolding e_def by (simp add: algebra_simps)
  then have b: "x \<le> y + e"
    using float_percentage_err [of "PyInt a" "PyInt b"] assms unfolding y_def x_def by simp
  have p: "pct_of (PyInt a) (PyInt b) = clamp 0 100 \<lfloor>x\<rfloor>"
    unfolding x_def by (rule pct_of_clamp)
  show ?thesis
  proof (cases "100 \<le> n")
    case True
    then have "clamp 0 100 \<lfloor>y\<rfloor> = 100" unfolding n_def by (simp add: clamp_def)
    then show ?thesis
      using pct_of_range [of "PyInt a" "PyInt b"] unfolding y_def by simp
  next
    case False
    then have n: "n + 1 \<le> 100" by simp
    have "y < of_int (n + 1)" unfolding n_def by linarith
    then have "of_int a * 100 < of_int (n + 1) * (of_int b :: rat)"
      unfolding y_def using bq by (simp add: field_simps)
    then have "(of_int (a * 100) :: rat) < of_int ((n + 1) * b)"
      by simp
    then have "a * 100 < (n + 1) * b"
      by (simp only: of_int_less_iff)
    then have "a * 100 + 1 \<le> (n + 1) * b" by simp
    then have "(of_int (a * 100 + 1) :: rat) \<le> of_int ((n + 1) * b)"
      by (simp only: of_int_le_iff)
    then have "of_int a * 100 + 1 \<le> of_int (n + 1) * (of_int b :: rat)"
      by simp
    then have gap: "y + 1 / of_int b \<le> of_int (n + 1)"
      unfolding y_def using bq by (simp add: field_simps)
    have "(of_int (n + 1) :: rat) \<le> of_int 100"
      using n by (simp only: of_int_le_iff)
    then have ylt: "y < 100"
      using \<open>y < of_int (n + 1)\<close> by simp
    have "e < 1 / 2 ^ 40"
      unfolding e_def using ylt by simp
    moreover have "(1 :: rat) / 2 ^ 40 \<le> 1 / of_int b"
    proof -
      have "(of_int b :: rat) \<le> of_int (2 ^ 40)"
        using assms(3) by (simp only: of_int_le_iff)
      then show ?thesis using bq by (simp add: frac_le)
    qed
    ultimately have "x < of_int (n + 1)"
      using b gap by linarith
    then have "\<lfloor>x\<rfloor> < n + 1" by (simp only: floor_less_iff)
    then have "\<lfloor>x\<rfloor> \<le> \<lfloor>y\<rfloor>" unfolding n_def by simp
    then show ?thesis
      unfolding p y_def [symmetric] by (rule clamp_mono)
  qed
qed

lemma pct_of_int_exact_or_below:
  assumes "0 \<le> a" and "0 < b" and "b \<le> 2 ^ 40"
  shows "clamp 0 100 \<lfloor>(of_int a :: rat) / of_int b * 100\<rfloor> - 1 \<le> pct_of (PyInt a) (PyInt b)
       \<and> pct_of (PyInt a) (PyInt b) \<le> clamp 0 100 \<lfloor>(of_int a :: rat) / of_int b * 100\<rfloor>"
proof -
  have "\<bar>pct_of (PyInt a) (PyInt b) - clamp 0 100 \<lfloor>(of_int a :: rat) / of_int b * 100\<rfloor>\<bar> \<le> 1"
    using pct_of_near_exact [of "PyInt a" "PyInt b"] assms by simp
  then show ?thesis
    using pct_of_int_le_exact [OF assms] by linarith
qed

section \<open>What a progress event does\<close>

text \<open>
  C4 (as the code has it). An event for an id that is not in the store changes nothing. For
  a task in the store: an event with status "downloading" and a nonzero total sets the
  progress to \<open>clamp(0, 100, floor(x))\<close>, where \<open>x\<close> is \<open>(downloaded_bytes / total) * 100\<close> as
  Python's floats compute it, the quotient and the product each rounded to binary64. That
  value is between 0 and 100; for a non-negative byte count and a positive total it is
  within 1 of \<open>clamp(0, 100, floor(downloaded_bytes / total * 100))\<close> in exact arithmetic;
  for integer counts with a total of at most \<open>2 ^ 40\<close> bytes it is that exact value or one
  less. An event with status "downloading" and no nonzero total, and an event with any
  other status, leave the store as it is, so the recorded percentage is retained. The
  total is \<open>total_bytes\<close> when that is present and nonzero, else \<open>total_bytes_estimate\<close>; a
  missing \<open>downloaded_bytes\<close> counts as 0.
\<close>

theorem update_progress_cases:
  "(tasks task_id = None \<longrightarrow> update_progress tasks task_id d = tasks)
   \<and> (\<forall>t. tasks task_id = Some t \<longrightarrow>
          (ev_status d = Some ''downloading'' \<and> num_val (event_total d) \<noteq> 0 \<longrightarrow>
             (\<exists>p. update_progress tasks task_id d = tasks(task_id \<mapsto> t\<lparr>progress := p\<rparr>)
                \<and> p = clamp 0 100
                        \<lfloor>py_mul100 (py_truediv (or_zero (downloaded_bytes d)) (event_total d))\<rfloor>
                \<and> 0 \<le> p \<and> p \<le> 100
                \<and> (0 \<le> num_val (or_zero (downloaded_bytes d)) \<and> 0 < num_val (event_total d) \<longrightarrow>
                     \<bar>p - clamp 0 100
                            \<lfloor>num_val (or_zero (downloaded_bytes d)) / num_val (event_total d)
                               * 100\<rfloor>\<bar> \<le> 1)
                \<and> (\<forall>a b. or_zero (downloaded_bytes d) = PyInt a \<and> event_total d = PyInt b
                        \<and> 0 \<le> a \<and> 0 < b \<and> b \<le> 2 ^ 40 \<longrightarrow>
                      clamp 0 100 \<lfloor>(of_int a :: rat) / of_int b * 100\<rfloor> - 1 \<le> p
                      \<and> p \<le> clamp 0 100 \<lfloor>(of_int a :: rat) / of_int b * 100\<rfloor>)))
        \<and> (ev_status d = Some ''downloading'' \<and> num_val (event_total d) = 0 \<longrightarrow>
             update_progress tasks task_id d = tasks)
        \<and> (ev_status d \<noteq> Some ''downloading'' \<longrightarrow> update_progress tasks task_id d = tasks))
   \<and> event_total d =
       (if num_truthy (total_bytes d) then the (total_bytes d)
        else if num_truthy (total_bytes_estimate d) then the (total_bytes_estimate d)
        else PyInt 0)
   \<and> (num_val (event_total d) \<noteq> 0 \<longleftrightarrow>
        num_truthy (total_bytes d) \<or> num_truthy (total_bytes_estimate d))
   \<and> or_zero (downloaded_bytes d) =
       (if num_truthy (downloaded_bytes d) then the (downloaded_bytes d) else PyInt 0)"
proof -
  let ?dl = "or_zero (downloaded_bytes d)"
  let ?tot = "event_total d"
  let ?p = "pct_of ?dl ?tot"
  have applied: "\<exists>p. update_progress tasks task_id d = tasks(task_id \<mapsto> t\<lparr>progress := p\<rparr>)
                \<and> p = clamp 0 100 \<lfloor>py_mul100 (py_truediv ?dl ?tot)\<rfloor>
                \<and> 0 \<le> p \<and> p \<le> 100
                \<and> (0 \<le> num_val ?dl \<and> 0 < num_val ?tot \<longrightarrow>
                     \<bar>p - clamp 0 100 \<lfloor>num_val ?dl / num_val ?tot * 100\<rfloor>\<bar> \<le> 1)
                \<and> (\<forall>a b. ?dl = PyInt a \<and> ?tot = PyInt b \<and> 0 \<le> a \<and> 0 < b \<and> b \<le> 2 ^ 40 \<longrightarrow>
                      clamp 0 100 \<lfloor>(of_int a :: rat) / of_int b * 100\<rfloor> - 1 \<le> p
                      \<and> p \<le> clamp 0 100 \<lfloor>(of_int a :: rat) / of_int b * 100\<rfloor>)"
    if "tasks task_id = Some t" "ev_status d = Some ''downloading''" "num_val ?tot \<noteq> 0" for t
  proof -
    have u: "update_progress tasks task_id d = tasks(task_id \<mapsto> t\<lparr>progress := ?p\<rparr>)"
      using that by (rule update_progress_applied)
    have c: "?p = clamp 0 100 \<lfloor>py_mul100 (py_truediv ?dl ?tot)\<rfloor>"
      by (rule pct_of_clamp)
    have r: "0 \<le> ?p \<and> ?p \<le> 100"
      by (rule pct_of_range)
    have n: "\<bar>?p - clamp 0 100 \<lfloor>num_val ?dl / num_val ?tot * 100\<rfloor>\<bar> \<le> 1"
      if "0 \<le> num_val ?dl" "0 < num_val ?tot"
      using that by (rule pct_of_near_exact)
    have i: "clamp 0 100 \<lfloor>(of_int a :: rat) / of_int b * 100\<rfloor> - 1 \<le> ?p
             \<and> ?p \<le> clamp 0 100 \<lfloor>(of_int a :: rat) / of_int b * 100\<rfloor>"
      if "?dl = PyInt a" "?tot = PyInt b" "0 \<le> a" "0 < b" "b \<le> 2 ^ 40" for a b
      using pct_of_int_exact_or_below [of a b] that by simp
    show ?thesis
      using u c r n i by blast
  qed
  have z: "or_zero (downloaded_bytes d) =
             (if num_truthy (downloaded_bytes d) then the (downloaded_bytes d) else PyInt 0)"
    by (simp add: or_zero_def)
  show ?thesis
    using update_progress_unknown [of tasks task_id d]
          applied
          update_progress_retained [of tasks task_id _ d]
          event_total_cases [of d] event_total_nonzero [of d] z
    by blast
qed

theorem update_progress_cases_witness:
  "update_progress running_store ''0a1b'' event_29_of_100 =
     running_store(''0a1b'' \<mapsto> downloading_task\<lparr>progress := 28\<rparr>)
   \<and> clamp 0 100 \<lfloor>(29 :: rat) / 100 * 100\<rfloor> - 1 \<le> (28 :: int)
   \<and> (28 :: int) \<le> clamp 0 100 \<lfloor>(29 :: rat) / 100 * 100\<rfloor>
   \<and> (\<exists>p. update_progress running_store ''0a1b'' first_estimate =
            running_store(''0a1b'' \<mapsto> downloading_task\<lparr>progress := p\<rparr>)
          \<and> \<bar>p - clamp 0 100 \<lfloor>(50 :: rat) / 100 * 100\<rfloor>\<bar> \<le> 1)
   \<and> update_progress (running_store(''0a1b'' \<mapsto> downloading_task\<lparr>progress := 50\<rparr>))
        ''0a1b'' no_total_event =
     running_store(''0a1b'' \<mapsto> downloading_task\<lparr>progress := 50\<rparr>)
   \<and> update_progress running_store ''0a1b'' finished_event = running_store
   \<and> update_progress running_store ''zz'' first_estimate = running_store"
proof -
  have t: "event_total first_estimate = PyFloat 100" "event_total no_total_event = PyInt 0"
          "event_total event_29_of_100 = PyInt 100"
    by (simp_all add: event_total_def or_num_def or_zero_def first_estimate_def
                      no_total_event_def event_29_of_100_def)
  have dl: "or_zero (downloaded_bytes first_estimate) = PyInt 50"
           "or_zero (downloaded_bytes event_29_of_100) = PyInt 29"
    by (simp_all add: or_zero_def first_estimate_def event_29_of_100_def)
  have s: "ev_status first_estimate = Some ''downloading''"
          "ev_status no_total_event = Some ''downloading''"
          "ev_status finished_event \<noteq> Some ''downloading''"
          "ev_status event_29_of_100 = Some ''downloading''"
    by (simp_all add: first_estimate_def no_total_event_def finished_event_def
                      event_29_of_100_def)
  have r: "running_store ''0a1b'' = Some downloading_task" "running_store ''zz'' = None"
    by (simp_all add: running_store_def)
  have r': "(running_store(''0a1b'' \<mapsto> downloading_task\<lparr>progress := 50\<rparr>)) ''0a1b''
              = Some (downloading_task\<lparr>progress := 50\<rparr>)"
    by simp
  have nz: "num_val (PyInt 100) \<noteq> 0" "num_val (PyFloat 100) \<noteq> 0" "num_val (PyInt 0) = 0"
    by simp_all
  note at29 = update_progress_cases [of running_store "''0a1b''" event_29_of_100, unfolded t dl]
  have "\<exists>p. update_progress running_store ''0a1b'' event_29_of_100 =
              running_store(''0a1b'' \<mapsto> downloading_task\<lparr>progress := p\<rparr>)
          \<and> p = clamp 0 100 \<lfloor>py_mul100 (py_truediv (PyInt 29) (PyInt 100))\<rfloor>
          \<and> (\<forall>a b. PyInt 29 = PyInt a \<and> PyInt 100 = PyInt b \<and> 0 \<le> a \<and> 0 < b \<and> b \<le> 2 ^ 40 \<longrightarrow>
                 clamp 0 100 \<lfloor>(of_int a :: rat) / of_int b * 100\<rfloor> - 1 \<le> p
                 \<and> p \<le> clamp 0 100 \<lfloor>(of_int a :: rat) / of_int b * 100\<rfloor>)"
    using at29 r(1) s(4) nz(1) by blast
  then obtain p where p: "update_progress running_store ''0a1b'' event_29_of_100 =
                       running_store(''0a1b'' \<mapsto> downloading_task\<lparr>progress := p\<rparr>)"
    and v: "p = clamp 0 100 \<lfloor>py_mul100 (py_truediv (PyInt 29) (PyInt 100))\<rfloor>"
    and q: "\<forall>a b. PyInt 29 = PyInt a \<and> PyInt 100 = PyInt b \<and> 0 \<le> a \<and> 0 < b \<and> b \<le> 2 ^ 40 \<longrightarrow>
                 clamp 0 100 \<lfloor>(of_int a :: rat) / of_int b * 100\<rfloor> - 1 \<le> p
                 \<and> p \<le> clamp 0 100 \<lfloor>(of_int a :: rat) / of_int b * 100\<rfloor>"
    by blast
  have "PyInt 29 = PyInt 29 \<and> PyInt 100 = PyInt 100 \<and> (0 :: int) \<le> 29 \<and> (0 :: int) < 100
        \<and> (100 :: int) \<le> 2 ^ 40"
    by simp
  then have "clamp 0 100 \<lfloor>(of_int 29 :: rat) / of_int 100 * 100\<rfloor> - 1 \<le> p
             \<and> p \<le> clamp 0 100 \<lfloor>(of_int 29 :: rat) / of_int 100 * 100\<rfloor>"
    using q by blast
  then have lo: "clamp 0 100 \<lfloor>(29 :: rat) / 100 * 100\<rfloor> - 1 \<le> p"
    and hi: "p \<le> clamp 0 100 \<lfloor>(29 :: rat) / 100 * 100\<rfloor>"
    by simp_all
  have "p = 28"
    using v pct_29_of_100 unfolding pct_of_clamp by simp
  then have a: "update_progress running_store ''0a1b'' event_29_of_100 =
                  running_store(''0a1b'' \<mapsto> downloading_task\<lparr>progress := 28\<rparr>)"
    and a1: "clamp 0 100 \<lfloor>(29 :: rat) / 100 * 100\<rfloor> - 1 \<le> (28 :: int)"
    and a2: "(28 :: int) \<le> clamp 0 100 \<lfloor>(29 :: rat) / 100 * 100\<rfloor>"
    using p lo hi by simp_all
  note at50 = update_progress_cases [of running_store "''0a1b''" first_estimate, unfolded t dl]
  have pos: "0 \<le> num_val (PyInt 50) \<and> 0 < num_val (PyFloat 100)"
    by simp
  have "\<exists>p. update_progress running_store ''0a1b'' first_estimate =
            running_store(''0a1b'' \<mapsto> downloading_task\<lparr>progress := p\<rparr>)
          \<and> \<bar>p - clamp 0 100 \<lfloor>num_val (PyInt 50) / num_val (PyFloat 100) * 100\<rfloor>\<bar> \<le> 1"
    using at50 r(1) s(1) nz(2) pos by blast
  then have b: "\<exists>p. update_progress running_store ''0a1b'' first_estimate =
            running_store(''0a1b'' \<mapsto> downloading_task\<lparr>progress := p\<rparr>)
          \<and> \<bar>p - clamp 0 100 \<lfloor>(50 :: rat) / 100 * 100\<rfloor>\<bar> \<le> 1"
    by simp
  have c: "update_progress (running_store(''0a1b'' \<mapsto> downloading_task\<lparr>progress := 50\<rparr>))
             ''0a1b'' no_total_event =
           running_store(''0a1b'' \<mapsto> downloading_task\<lparr>progress := 50\<rparr>)"
    using update_progress_cases
            [of "running_store(''0a1b'' \<mapsto> downloading_task\<lparr>progress := 50\<rparr>)" "''0a1b''"
                no_total_event] r' s(2)
    unfolding t by simp
  have e: "update_progress running_store ''0a1b'' finished_event = running_store"
    using update_progress_cases [of running_store "''0a1b''" finished_event] r(1) s(3)
    by blast
  have f: "update_progress running_store ''zz'' first_estimate = running_store"
    using update_progress_cases [of running_store "''zz''" first_estimate] r(2)
    by blast
  show ?thesis
    using a a1 a2 b c e f by blast
qed

text \<open>
  With exact arithmetic 29 of 100 bytes are 29 percent. The code divides and multiplies in
  floats: \<open>29 / 100\<close> is rounded below 0.29, its product with 100 is rounded to
  28.999999999999996, and the progress is set to 28.
\<close>

theorem progress_of_29_in_100_is_28:
  "update_progress running_store ''0a1b'' event_29_of_100 =
     running_store(''0a1b'' \<mapsto> downloading_task\<lparr>progress := 28\<rparr>)
   \<and> clamp 0 100 \<lfloor>(29 :: rat) / 100 * 100\<rfloor> = 29
   \<and> py_mul100 (py_truediv (PyInt 29) (PyInt 100)) = 8162774324609023 / 281474976710656"
proof -
  have t: "event_total event_29_of_100 = PyInt 100"
    by (simp add: event_total_def or_num_def or_zero_def event_29_of_100_def)
  have d: "or_zero (downloaded_bytes event_29_of_100) = PyInt 29"
    by (simp add: or_zero_def event_29_of_100_def)
  have a: "update_progress running_store ''0a1b'' event_29_of_100 =
             running_store(''0a1b'' \<mapsto> downloading_task\<lparr>progress := 28\<rparr>)"
    using update_progress_applied
            [of running_store "''0a1b''" downloading_task event_29_of_100]
    unfolding t d pct_29_of_100
    by (simp add: running_store_def event_29_of_100_def)
  have b: "clamp 0 100 \<lfloor>(29 :: rat) / 100 * 100\<rfloor> = 29"
    by (simp add: clamp_def)
  have c: "py_mul100 (py_truediv (PyInt 29) (PyInt 100)) = 8162774324609023 / 281474976710656"
    by code_simp
  show ?thesis
    using a b c by blast
qed

section \<open>Progress in the reachable stores\<close>

lemma api_start_download_store:
  "store (api_start_download e tasks body) = tasks
   \<or> (\<exists>u. store (api_start_download e tasks body) =
         tasks(uuid4 e \<mapsto>
           \<lparr>status = ''queued'', progress = 0, url = u, created = now e,
            filename = None, filepath = None, title = None, error = None\<rparr>))"
proof -
  have "store (start_job e tasks u) =
          tasks(uuid4 e \<mapsto>
            \<lparr>status = ''queued'', progress = 0, url = u, created = now e,
             filename = None, filepath = None, title = None, error = None\<rparr>)" for u
    by (simp add: start_job_def Let_def)
  then show ?thesis
    using api_store_cases [of e tasks body] by metis
qed

lemma worker_begin_at:
  "s task_id = Some t \<Longrightarrow> worker_begin s task_id = s(task_id \<mapsto> t\<lparr>status := ''downloading''\<rparr>)"
  by (simp add: worker_begin_def task_update_def)

lemma worker_end_saved:
  "s task_id = Some t \<Longrightarrow>
   worker_end s task_id (Saved i f) =
     s(task_id \<mapsto> t\<lparr>status := ''completed'', progress := 100, filename := Some (basename f),
                     filepath := Some f,
                     title := (case i of None \<Rightarrow> None | Some d \<Rightarrow> info_title d)\<rparr>)"
  by (simp add: worker_end_def task_update_def)

lemma worker_end_raised:
  "s task_id = Some t \<Longrightarrow>
   worker_end s task_id (Raised x) =
     s(task_id \<mapsto> t\<lparr>status := ''failed'', error := Some TASK_ERROR\<rparr>)"
  by (simp add: worker_end_def task_update_def)

lemma update_progress_value:
  assumes "s task_id = Some t"
  shows "\<exists>p. update_progress s task_id d = s(task_id \<mapsto> t\<lparr>progress := p\<rparr>)
           \<and> (p = progress t \<or> p = pct_of (or_zero (downloaded_bytes d)) (event_total d))"
proof (cases "ev_status d = Some ''downloading'' \<and> num_val (event_total d) \<noteq> 0")
  case True
  then show ?thesis
    using update_progress_applied [of s task_id t d] assms by blast
next
  case False
  then have "update_progress s task_id d = s"
    using update_progress_retained [of s task_id t d] assms by blast
  moreover have "s = s(task_id \<mapsto> t\<lparr>progress := progress t\<rparr>)"
    using assms by (simp add: map_upd_triv)
  ultimately show ?thesis by metis
qed

text \<open>
  In every reachable store the progress of a task is between 0 and 100, and it is 100 when
  the status is \<open>completed\<close>.
\<close>

lemma reachable_progress:
  assumes "reachable s" and "s k = Some t"
  shows "0 \<le> progress t \<and> progress t \<le> 100 \<and> (status t = ''completed'' \<longrightarrow> progress t = 100)"
  using assms
proof (induction arbitrary: k t rule: reachable.induct)
  case boot
  then show ?case by simp
next
  case (served s e body)
  consider "store (api_start_download e s body) = s"
    | u where "store (api_start_download e s body) =
                 s(uuid4 e \<mapsto>
                   \<lparr>status = ''queued'', progress = 0, url = u, created = now e,
                    filename = None, filepath = None, title = None, error = None\<rparr>)"
    using api_start_download_store [of e s body] by blast
  then show ?case
  proof cases
    case 1
    then show ?thesis using served.IH [of k t] served.prems by simp
  next
    case 2
    show ?thesis
    proof (cases "k = uuid4 e")
      case True
      then show ?thesis using served.prems 2 by auto
    next
      case False
      then have "s k = Some t" using served.prems 2 by simp
      then show ?thesis by (rule served.IH)
    qed
  qed
next
  case (started s task_id t0)
  have w: "worker_begin s task_id = s(task_id \<mapsto> t0\<lparr>status := ''downloading''\<rparr>)"
    using started.hyps(2) by (rule worker_begin_at)
  show ?case
  proof (cases "k = task_id")
    case True
    then have "t = t0\<lparr>status := ''downloading''\<rparr>" using started.prems w by simp
    then show ?thesis using started.IH [of task_id t0] started.hyps(2) by simp
  next
    case False
    then have "s k = Some t" using started.prems w by simp
    then show ?thesis by (rule started.IH)
  qed
next
  case (hooked s task_id t0 d)
  obtain p where u: "update_progress s task_id d = s(task_id \<mapsto> t0\<lparr>progress := p\<rparr>)"
    and p: "p = progress t0 \<or> p = pct_of (or_zero (downloaded_bytes d)) (event_total d)"
    using update_progress_value [of s task_id t0 d] hooked.hyps(2) by blast
  show ?case
  proof (cases "k = task_id")
    case True
    then have t: "t = t0\<lparr>progress := p\<rparr>" using hooked.prems u by simp
    have "0 \<le> p \<and> p \<le> 100"
      using p hooked.IH [of task_id t0] hooked.hyps(2) pct_of_range by metis
    then show ?thesis using t hooked.hyps(3) by simp
  next
    case False
    then have "s k = Some t" using hooked.prems u by simp
    then show ?thesis by (rule hooked.IH)
  qed
next
  case (finished s task_id t0 r)
  show ?case
  proof (cases "k = task_id")
    case True
    show ?thesis
    proof (cases r)
      case (Saved i f)
      then show ?thesis
        using finished.prems True worker_end_saved [of s task_id t0 i f] finished.hyps(2)
        by auto
    next
      case (Raised x)
      then have "t = t0\<lparr>status := ''failed'', error := Some TASK_ERROR\<rparr>"
        using finished.prems True worker_end_raised [of s task_id t0 x] finished.hyps(2)
        by simp
      then show ?thesis using finished.IH [of task_id t0] finished.hyps(2) by simp
    qed
  next
    case False
    have "worker_end s task_id r k = s k"
      using False finished.hyps(2)
      by (cases r) (simp_all add: worker_end_saved worker_end_raised)
    then have "s k = Some t" using finished.prems by simp
    then show ?thesis by (rule finished.IH)
  qed
qed

text \<open>A whole run of the worker on a queued task of a reachable store ends in a reachable store.\<close>

lemma hooks_reachable:
  assumes "reachable s" and "s task_id = Some t" and "status t = ''downloading''"
  shows "reachable (foldl (\<lambda>s d. update_progress s task_id d) s evs)
         \<and> (\<exists>t'. foldl (\<lambda>s d. update_progress s task_id d) s evs task_id = Some t'
                \<and> status t' = ''downloading'')"
  using assms
proof (induction evs arbitrary: s t)
  case Nil
  then show ?case by simp
next
  case (Cons d evs)
  obtain p where u: "update_progress s task_id d = s(task_id \<mapsto> t\<lparr>progress := p\<rparr>)"
    using update_progress_value [of s task_id t d] Cons.prems(2) by blast
  have r: "reachable (update_progress s task_id d)"
    using Cons.prems by (rule reachable.hooked)
  have "update_progress s task_id d task_id = Some (t\<lparr>progress := p\<rparr>)"
    using u by simp
  moreover have "status (t\<lparr>progress := p\<rparr>) = ''downloading''"
    using Cons.prems(3) by simp
  ultimately show ?case
    using Cons.IH [of "update_progress s task_id d" "t\<lparr>progress := p\<rparr>"] r by simp
qed

lemma download_background_reachable:
  assumes "reachable s" and "s task_id = Some t" and "status t = ''queued''"
  shows "\<exists>s'. download_background s task_id run = Inr s' \<and> reachable s'"
proof -
  let ?s1 = "worker_begin s task_id"
  have r1: "reachable ?s1"
    using assms by (rule reachable.started)
  have s1: "?s1 task_id = Some (t\<lparr>status := ''downloading''\<rparr>)"
    using assms(2) by (simp add: worker_begin_at)
  let ?s2 = "foldl (\<lambda>s d. update_progress s task_id d) ?s1 (hook_events run)"
  obtain t2 where r2: "reachable ?s2" and s2: "?s2 task_id = Some t2"
    and d2: "status t2 = ''downloading''"
    using hooks_reachable [of ?s1 task_id "t\<lparr>status := ''downloading''\<rparr>" "hook_events run"]
          r1 s1
    by auto
  have "reachable (worker_end ?s2 task_id (outcome run))"
    using r2 s2 d2 by (rule reachable.finished)
  moreover have "download_background s task_id run = Inr (worker_end ?s2 task_id (outcome run))"
    using assms(2) by (simp add: download_background_def Let_def)
  ultimately show ?thesis by blast
qed

lemma running_store_reachable: "reachable running_store"
proof -
  have u: "dict_get [(''url'', note_url)] ''url'' = note_url"
    by (simp add: dict_get_def)
  have m: "dict_get [(''url'', note_url)] ''mode'' \<noteq> JStr ''direct''"
    by (simp add: dict_get_def)
  have v: "truthy (dict_get [(''url'', note_url)] ''url'')"
    unfolding u by (simp add: note_url_def)
  have w: "no_allowed_domain (dict_get [(''url'', note_url)] ''url'') = Inr False"
    unfolding u by (simp add: note_url_def no_allowed_domain_def)
  have "api_start_download demo_env Map.empty job_body = start_job demo_env Map.empty note_url"
    unfolding job_body_def using api_job [OF v w m] u by simp
  then have s: "store (api_start_download demo_env Map.empty job_body) = [''0a1b'' \<mapsto> queued_task]"
    by (simp add: start_job_def demo_env_def queued_task_def Let_def)
  have "uuid4 demo_env \<notin> dom (Map.empty :: tasks)"
    by simp
  then have "reachable (store (api_start_download demo_env Map.empty job_body))"
    using reachable.boot by (rule reachable.served [rotated])
  then have q: "reachable [''0a1b'' \<mapsto> queued_task]"
    using s by simp
  have "[''0a1b'' \<mapsto> queued_task] ''0a1b'' = Some queued_task"
    by simp
  moreover have "status queued_task = ''queued''"
    by (simp add: queued_task_def)
  ultimately have "reachable (worker_begin [''0a1b'' \<mapsto> queued_task] ''0a1b'')"
    using q reachable.started [of "[''0a1b'' \<mapsto> queued_task]" "''0a1b''" queued_task]
    by blast
  moreover have "worker_begin [''0a1b'' \<mapsto> queued_task] ''0a1b'' = running_store"
    by (simp add: worker_begin_def task_update_def running_store_def downloading_task_def)
  ultimately show ?thesis by simp
qed

text \<open>
  C1 (as the code has it). For a task of a reachable store: its progress is between 0 and
  100, and it is 100 whenever the status is \<open>completed\<close>; the write that completes the task
  sets the progress to 100 and so never lowers it; an event whose status is not
  "downloading" or that has no nonzero total leaves the store as it is; and of two
  successive events with status "downloading", the same positive total and integer byte
  counts \<open>0 \<le> a1 \<le> a2\<close>, the second leaves the progress greater than or equal to the value
  the first has set. The code keeps no maximum: nothing compares an event with the events
  before it.
\<close>

theorem progress_in_reachable_stores:
  assumes "reachable s" and "s task_id = Some t"
  shows "0 \<le> progress t \<and> progress t \<le> 100
       \<and> (status t = ''completed'' \<longrightarrow> progress t = 100)
       \<and> (\<forall>i f. \<exists>t'. worker_end s task_id (Saved i f) task_id = Some t'
                \<and> status t' = ''completed'' \<and> progress t' = 100 \<and> progress t \<le> progress t')
       \<and> (\<forall>d. ev_status d \<noteq> Some ''downloading'' \<or> num_val (event_total d) = 0 \<longrightarrow>
                update_progress s task_id d = s)
       \<and> (\<forall>d1 d2 a1 a2.
             ev_status d1 = Some ''downloading'' \<and> ev_status d2 = Some ''downloading''
             \<and> event_total d2 = event_total d1 \<and> 0 < num_val (event_total d1)
             \<and> or_zero (downloaded_bytes d1) = PyInt a1
             \<and> or_zero (downloaded_bytes d2) = PyInt a2
             \<and> 0 \<le> a1 \<and> a1 \<le> a2 \<longrightarrow>
             (\<exists>t1 t2. update_progress s task_id d1 task_id = Some t1
                \<and> update_progress (update_progress s task_id d1) task_id d2 task_id = Some t2
                \<and> progress t1 \<le> progress t2))"
proof -
  have a: "0 \<le> progress t \<and> progress t \<le> 100 \<and> (status t = ''completed'' \<longrightarrow> progress t = 100)"
    using assms by (rule reachable_progress)
  have b: "\<exists>t'. worker_end s task_id (Saved i f) task_id = Some t'
             \<and> status t' = ''completed'' \<and> progress t' = 100 \<and> progress t \<le> progress t'" for i f
    using a assms(2) by (simp add: worker_end_saved [of s task_id t i f])
  have c: "update_progress s task_id d = s"
    if "ev_status d \<noteq> Some ''downloading'' \<or> num_val (event_total d) = 0" for d
    using update_progress_retained [of s task_id t d] assms(2) that by blast
  have d: "\<exists>t1 t2. update_progress s task_id d1 task_id = Some t1
             \<and> update_progress (update_progress s task_id d1) task_id d2 task_id = Some t2
             \<and> progress t1 \<le> progress t2"
    if st: "ev_status d1 = Some ''downloading''" "ev_status d2 = Some ''downloading''"
      and tot: "event_total d2 = event_total d1" "0 < num_val (event_total d1)"
      and by1: "or_zero (downloaded_bytes d1) = PyInt a1"
      and by2: "or_zero (downloaded_bytes d2) = PyInt a2"
      and le: "0 \<le> a1" "a1 \<le> a2"
    for d1 d2 a1 a2
  proof -
    let ?T = "event_total d1"
    let ?t1 = "t\<lparr>progress := pct_of (PyInt a1) ?T\<rparr>"
    let ?s1 = "s(task_id \<mapsto> ?t1)"
    have nz: "num_val ?T \<noteq> 0" using tot(2) by simp
    have u1: "update_progress s task_id d1 = ?s1"
      using update_progress_applied [of s task_id t d1] assms(2) st(1) nz by1 by simp
    have at1: "?s1 task_id = Some ?t1" by simp
    have nz2: "num_val (event_total d2) \<noteq> 0" using nz tot(1) by simp
    have u2: "update_progress ?s1 task_id d2 =
                ?s1(task_id \<mapsto> ?t1\<lparr>progress := pct_of (PyInt a2) ?T\<rparr>)"
      using update_progress_applied [of ?s1 task_id ?t1 d2] at1 st(2) nz2 by2 tot(1)
      by simp
    have "pct_of (PyInt a1) ?T \<le> pct_of (PyInt a2) ?T"
      using le tot(2) by (rule pct_of_mono)
    then show ?thesis
      unfolding u1 u2 by simp
  qed
  show ?thesis
    using a b c d by blast
qed

theorem progress_in_reachable_stores_witness:
  "reachable running_store
   \<and> running_store ''0a1b'' = Some downloading_task
   \<and> 0 \<le> progress downloading_task \<and> progress downloading_task \<le> 100
   \<and> reachable saved_store
   \<and> (\<exists>t. saved_store ''0a1b'' = Some t \<and> status t = ''completed'' \<and> progress t = 100)
   \<and> update_progress running_store ''0a1b'' no_total_event = running_store
   \<and> (\<exists>t1 t2. update_progress running_store ''0a1b'' first_estimate ''0a1b'' = Some t1
          \<and> update_progress (update_progress running_store ''0a1b'' first_estimate)
               ''0a1b'' same_estimate ''0a1b'' = Some t2
          \<and> progress t1 \<le> progress t2)"
proof -
  have r: "running_store ''0a1b'' = Some downloading_task"
    by (simp add: running_store_def)
  have t: "event_total first_estimate = PyFloat 100" "event_total same_estimate = PyFloat 100"
          "event_total no_total_event = PyInt 0"
    by (simp_all add: event_total_def or_num_def or_zero_def first_estimate_def
                      same_estimate_def no_total_event_def)
  have d: "or_zero (downloaded_bytes first_estimate) = PyInt 50"
          "or_zero (downloaded_bytes same_estimate) = PyInt 80"
    by (simp_all add: or_zero_def first_estimate_def same_estimate_def)
  have e: "ev_status first_estimate = Some ''downloading''"
          "ev_status same_estimate = Some ''downloading''"
    by (simp_all add: first_estimate_def same_estimate_def)
  have n: "num_val (event_total no_total_event) = 0"
    unfolding t by simp
  have p: "0 < num_val (event_total first_estimate)"
    unfolding t by simp
  have q: "event_total same_estimate = event_total first_estimate"
    unfolding t by simp
  note main = progress_in_reachable_stores [OF running_store_reachable r]
  have a: "0 \<le> progress downloading_task \<and> progress downloading_task \<le> 100"
    using main by blast
  have b: "update_progress running_store ''0a1b'' no_total_event = running_store"
    using main n by blast
  have "(0 :: int) \<le> 50 \<and> (50 :: int) \<le> 80"
    by simp
  then have c: "\<exists>t1 t2. update_progress running_store ''0a1b'' first_estimate ''0a1b'' = Some t1
          \<and> update_progress (update_progress running_store ''0a1b'' first_estimate)
               ''0a1b'' same_estimate ''0a1b'' = Some t2
          \<and> progress t1 \<le> progress t2"
    using main e q p d by blast
  have st: "status downloading_task = ''downloading''"
    by (simp add: downloading_task_def)
  have f: "reachable saved_store"
    unfolding saved_store_def using running_store_reachable r st by (rule reachable.finished)
  obtain t where g: "saved_store ''0a1b'' = Some t" and h: "status t = ''completed''"
    using r by (simp add: saved_store_def worker_end_saved)
  have "progress t = 100"
    using progress_in_reachable_stores [OF f g] h by blast
  then have k: "\<exists>t. saved_store ''0a1b'' = Some t \<and> status t = ''completed'' \<and> progress t = 100"
    using g h by blast
  show ?thesis
    using running_store_reachable r a b c f k by blast
qed

text \<open>
  A download whose estimated total grows: 50 bytes of an estimated 100 put the progress at
  50, then 60 bytes of an estimated 300 put it at 20. Both stores are reachable.
\<close>

theorem progress_can_decrease:
  "update_progress running_store ''0a1b'' first_estimate =
     running_store(''0a1b'' \<mapsto> downloading_task\<lparr>progress := 50\<rparr>)
   \<and> update_progress (running_store(''0a1b'' \<mapsto> downloading_task\<lparr>progress := 50\<rparr>))
        ''0a1b'' later_estimate =
     running_store(''0a1b'' \<mapsto> downloading_task\<lparr>progress := 20\<rparr>)
   \<and> reachable (running_store(''0a1b'' \<mapsto> downloading_task\<lparr>progress := 50\<rparr>))
   \<and> reachable (running_store(''0a1b'' \<mapsto> downloading_task\<lparr>progress := 20\<rparr>))
   \<and> num_val (event_total first_estimate) \<noteq> 0
   \<and> progress (downloading_task\<lparr>progress := 20\<rparr>)
       < progress (downloading_task\<lparr>progress := 50\<rparr>)"
proof -
  let ?s50 = "running_store(''0a1b'' \<mapsto> downloading_task\<lparr>progress := 50\<rparr>)"
  let ?s20 = "running_store(''0a1b'' \<mapsto> downloading_task\<lparr>progress := 20\<rparr>)"
  have t: "event_total first_estimate = PyFloat 100" "event_total later_estimate = PyFloat 300"
    by (simp_all add: event_total_def or_num_def or_zero_def first_estimate_def
                      later_estimate_def)
  have d: "or_zero (downloaded_bytes first_estimate) = PyInt 50"
          "or_zero (downloaded_bytes later_estimate) = PyInt 60"
    by (simp_all add: or_zero_def first_estimate_def later_estimate_def)
  have e: "ev_status first_estimate = Some ''downloading''"
          "ev_status later_estimate = Some ''downloading''"
    by (simp_all add: first_estimate_def later_estimate_def)
  have r: "running_store ''0a1b'' = Some downloading_task"
    by (simp add: running_store_def)
  have st: "status downloading_task = ''downloading''"
    by (simp add: downloading_task_def)
  have a: "update_progress running_store ''0a1b'' first_estimate = ?s50"
    using update_progress_applied [of running_store "''0a1b''" downloading_task first_estimate]
          r e(1)
    unfolding t d pct_50_of_est_100 by simp
  have r50: "?s50 ''0a1b'' = Some (downloading_task\<lparr>progress := 50\<rparr>)"
    by simp
  have b: "update_progress ?s50 ''0a1b'' later_estimate = ?s20"
    using update_progress_applied
            [of ?s50 "''0a1b''" "downloading_task\<lparr>progress := 50\<rparr>" later_estimate]
          r50 e(2)
    unfolding t d pct_60_of_est_300 by simp
  have "reachable (update_progress running_store ''0a1b'' first_estimate)"
    using running_store_reachable r st by (rule reachable.hooked)
  then have c: "reachable ?s50"
    unfolding a .
  have "status (downloading_task\<lparr>progress := 50\<rparr>) = ''downloading''"
    using st by simp
  with c r50 have "reachable (update_progress ?s50 ''0a1b'' later_estimate)"
    by (rule reachable.hooked)
  then have f: "reachable ?s20"
    unfolding b .
  have g: "num_val (event_total first_estimate) \<noteq> 0"
    unfolding t by simp
  have h: "progress (downloading_task\<lparr>progress := 20\<rparr>)
             < progress (downloading_task\<lparr>progress := 50\<rparr>)"
    by simp
  show ?thesis
    using a b c f g h by blast
qed

section \<open>What a request for the status can see after a submission\<close>

text \<open>
  A submission to the empty store, and a collaborator that raises at once: the worker has
  made its last write, the store is reachable, and the status endpoint reports \<open>failed\<close>
  for the id that was just returned. And a submission for which \<open>uuid4\<close> returns an id that
  is in the store: the id is returned again, and the completed record it named is replaced
  by a queued one.
\<close>

theorem status_after_submit_can_be_failed:
  "resp (api_start_download demo_env Map.empty job_body) = Json 200 [(''task_id'', JStr ''0a1b'')]
   \<and> store (api_start_download demo_env Map.empty job_body) = [''0a1b'' \<mapsto> queued_task]
   \<and> download_background [''0a1b'' \<mapsto> queued_task] ''0a1b'' instant_failure =
       Inr [''0a1b'' \<mapsto> queued_task\<lparr>status := ''failed'', error := Some TASK_ERROR\<rparr>]
   \<and> reachable [''0a1b'' \<mapsto> queued_task\<lparr>status := ''failed'', error := Some TASK_ERROR\<rparr>]
   \<and> api_status [''0a1b'' \<mapsto> queued_task\<lparr>status := ''failed'', error := Some TASK_ERROR\<rparr>]
         ''0a1b'' =
       Json 200 [(''status'', JStr ''failed''), (''progress'', JNum 0),
                 (''filename'', JNull), (''title'', JNull), (''error'', JStr STATUS_ERROR)]
   \<and> (\<exists>t. saved_store ''0a1b'' = Some t \<and> status t = ''completed'')
   \<and> resp (api_start_download demo_env saved_store job_body) =
       Json 200 [(''task_id'', JStr ''0a1b'')]
   \<and> store (api_start_download demo_env saved_store job_body) ''0a1b'' = Some queued_task"
proof -
  have u: "dict_get [(''url'', note_url)] ''url'' = note_url"
    by (simp add: dict_get_def)
  have m: "dict_get [(''url'', note_url)] ''mode'' \<noteq> JStr ''direct''"
    by (simp add: dict_get_def)
  have v: "truthy (dict_get [(''url'', note_url)] ''url'')"
    unfolding u by (simp add: note_url_def)
  have w: "no_allowed_domain (dict_get [(''url'', note_url)] ''url'') = Inr False"
    unfolding u by (simp add: note_url_def no_allowed_domain_def)
  have j: "api_start_download demo_env s job_body = start_job demo_env s note_url" for s
    unfolding job_body_def using api_job [OF v w m] u by simp
  have a: "resp (api_start_download demo_env Map.empty job_body) =
             Json 200 [(''task_id'', JStr ''0a1b'')]"
    unfolding j by (simp add: start_job_def demo_env_def Let_def)
  have b: "store (api_start_download demo_env Map.empty job_body) = [''0a1b'' \<mapsto> queued_task]"
    unfolding j by (simp add: start_job_def demo_env_def queued_task_def Let_def)
  let ?f = "[''0a1b'' \<mapsto> queued_task\<lparr>status := ''failed'', error := Some TASK_ERROR\<rparr>]"
  have c: "download_background [''0a1b'' \<mapsto> queued_task] ''0a1b'' instant_failure = Inr ?f"
    by (simp add: download_background_def instant_failure_def worker_begin_def worker_end_def
                  task_update_def Let_def)
  have "uuid4 demo_env \<notin> dom (Map.empty :: tasks)"
    by simp
  then have "reachable (store (api_start_download demo_env Map.empty job_body))"
    using reachable.boot by (rule reachable.served [rotated])
  then have q: "reachable [''0a1b'' \<mapsto> queued_task]"
    unfolding b .
  have "[''0a1b'' \<mapsto> queued_task] ''0a1b'' = Some queued_task"
    by simp
  moreover have "status queued_task = ''queued''"
    by (simp add: queued_task_def)
  ultimately obtain s' where
    "download_background [''0a1b'' \<mapsto> queued_task] ''0a1b'' instant_failure = Inr s'"
    and "reachable s'"
    using download_background_reachable [OF q, of "''0a1b''" queued_task instant_failure]
    by blast
  then have d: "reachable ?f"
    using c by simp
  have e: "api_status ?f ''0a1b'' =
       Json 200 [(''status'', JStr ''failed''), (''progress'', JNum 0),
                 (''filename'', JNull), (''title'', JNull), (''error'', JStr STATUS_ERROR)]"
    by (simp add: api_status_def queued_task_def opt_str_def)
  have f: "\<exists>t. saved_store ''0a1b'' = Some t \<and> status t = ''completed''"
    by (simp add: saved_store_def worker_end_saved running_store_def)
  have g: "resp (api_start_download demo_env saved_store job_body) =
             Json 200 [(''task_id'', JStr ''0a1b'')]"
    unfolding j by (simp add: start_job_def demo_env_def Let_def)
  have h: "store (api_start_download demo_env saved_store job_body) ''0a1b'' = Some queued_task"
    unfolding j by (simp add: start_job_def demo_env_def queued_task_def Let_def)
  show ?thesis
    using a b c d e f g h by blast
qed

end
